theory Spec2Isabelle
  imports Complex_Main
begin

section \<open>The makima interpolator of \<^verbatim>\<open>boost/math/interpolators/makima.hpp\<close>\<close>

text \<open>
  The class template \<^verbatim>\<open>makima<RandomAccessContainer>\<close> is embedded twice. The first
  definitions read its element type \<^verbatim>\<open>Real\<close> as the exact reals, with two things that exact
  arithmetic would hide written out. A quotient whose divisor is zero is not a number
  of the model (the code computes an infinity or a NaN there): it is \<open>None\<close>, and every
  value computed from it is \<open>None\<close> again. An
  access outside a container, which C++ leaves undefined, is the result
  \<open>Undefined_Access\<close>. They decide what depends on comparisons, indices and branches, and
  what the polynomial is. The later definitions, named \<open>_in\<close>, take the arithmetic of
  \<^verbatim>\<open>Real\<close> as a parameter; its instances here are the exact arithmetic of the first
  definitions and the rounding arithmetic of \<^verbatim>\<open>double\<close>. They decide what depends on the
  numbers the code computes.
\<close>

subsection \<open>Errors and messages\<close>

text \<open>
  Both constructor and call operator throw \<^verbatim>\<open>std::domain_error\<close> with a message. A
  message is the sequence of its pieces: literal text, and numbers handed to
  \<^verbatim>\<open>std::to_string\<close>, whose rendering is left open.
\<close>

datatype msg_part = Str string | Num real

type_synonym message = "msg_part list"

datatype error = Domain_Error message | Undefined_Access

subsection \<open>The object\<close>

record makima =
  x_vec :: "real list"
  y_vec :: "real list"
  s_vec :: "real option list"

subsection \<open>Arithmetic helpers\<close>

definition fdiv :: "real \<Rightarrow> real \<Rightarrow> real option" where
  "fdiv a b = (if b = 0 then None else Some (a / b))"

text \<open>Subtraction of two \<^verbatim>\<open>size_t\<close> values (64 bits), wrapping below zero.\<close>

definition size_sub :: "nat \<Rightarrow> nat \<Rightarrow> nat" where
  "size_sub a b = (if b \<le> a then a - b else a + 2 ^ 64 - b)"

subsection \<open>The constructor\<close>

text \<open>
  Lines 33 to 40: \<open>x0\<close> is the previous abscissa, the list holds the abscissas still to
  be visited; \<open>False\<close> stands for the throw inside the loop.
\<close>

fun check_increasing :: "real \<Rightarrow> real list \<Rightarrow> bool" where
  "check_increasing x0 [] = True"
| "check_increasing x0 (x1 # xs) = (if x1 \<le> x0 then False else check_increasing x1 xs)"

text \<open>
  Lines 44 to 50: the body of the slope loop at index \<open>i\<close>. It divides five times: four
  secant slopes, then the weighted mean.
\<close>

definition slope_at :: "real list \<Rightarrow> real list \<Rightarrow> nat \<Rightarrow> real option" where
  "slope_at x y i =
    (case (fdiv (y ! (i - 1) - y ! (i - 2)) (x ! (i - 1) - x ! (i - 2)),
           fdiv (y ! i - y ! (i - 1)) (x ! i - x ! (i - 1)),
           fdiv (y ! (i + 1) - y ! i) (x ! (i + 1) - x ! i),
           fdiv (y ! (i + 2) - y ! (i + 1)) (x ! (i + 2) - x ! (i + 1))) of
       (Some mim2, Some mim1, Some mi, Some mip1) \<Rightarrow>
         (let numerator = \<bar>mip1 - mi\<bar> * mim1 + \<bar>mim1 - mim2\<bar> * mi;
              denominator = \<bar>mip1 - mi\<bar> + \<bar>mim1 - mim2\<bar>
          in fdiv numerator denominator)
     | _ \<Rightarrow> None)"

text \<open>Lines 43 to 51: the loop \<^verbatim>\<open>for (i = 2; i < s_.size()-2; ++i)\<close>, from index \<open>i\<close> on.\<close>

function slopes_loop :: "real list \<Rightarrow> real list \<Rightarrow> nat \<Rightarrow> real option list \<Rightarrow> real option list" where
  "slopes_loop x y i s =
    (if i < size_sub (length s) 2
     then slopes_loop x y (i + 1) (s[i := slope_at x y i])
     else s)"
  by pat_completeness auto
termination
  by (relation "measure (\<lambda>(x, y, i, s). size_sub (length s) 2 - i)") auto

definition length_message :: message where
  "length_message = [Str ''There must be the same number of ordinates as abscissas.'']"

definition points_message :: message where
  "points_message = [Str ''Must be at least two data points.'']"

definition order_message :: message where
  "order_message =
    [Str ''Abscissas must be listed in strictly increasing order x0 < x1 < ... < x_{n-1}'']"

text \<open>
  Lines 22 to 52. \<^verbatim>\<open>s_.resize(x_.size())\<close> on the empty \<^verbatim>\<open>s_\<close> appends
  value-initialised elements, which are zeros.
\<close>

definition makima_ctor :: "real list \<Rightarrow> real list \<Rightarrow> error + makima" where
  "makima_ctor x y =
    (if length x \<noteq> length y then Inl (Domain_Error length_message)
     else if length x < 2 then Inl (Domain_Error points_message)
     else if \<not> check_increasing (x ! 0) (drop 1 x) then Inl (Domain_Error order_message)
     else Inr \<lparr>x_vec = x, y_vec = y,
               s_vec = slopes_loop x y 2 (replicate (length x) (Some 0))\<rparr>)"

subsection \<open>The call operator\<close>

text \<open>
  \<^verbatim>\<open>std::upper_bound\<close> as the standard library runs it: a halving search that keeps the
  start \<open>first\<close> and the length \<open>len\<close> of the range still to be searched.
\<close>

function upper_bound_loop :: "real list \<Rightarrow> real \<Rightarrow> nat \<Rightarrow> nat \<Rightarrow> nat" where
  "upper_bound_loop xs v first len =
    (if len = 0 then first
     else let half = len div 2; middle = first + half
          in if v < xs ! middle then upper_bound_loop xs v first half
             else upper_bound_loop xs v (middle + 1) (len - half - 1))"
  by pat_completeness auto
termination
  by (relation "measure (\<lambda>(xs, v, first, len). len)") auto

definition upper_bound :: "real list \<Rightarrow> real \<Rightarrow> nat" where
  "upper_bound xs v = upper_bound_loop xs v 0 (length xs)"

text \<open>Lines 83 and 84: the polynomial as the code computes it.\<close>

definition hermite :: "real \<Rightarrow> real \<Rightarrow> real \<Rightarrow> real \<Rightarrow> real \<Rightarrow> real \<Rightarrow> real" where
  "hermite y0 y1 s0 s1 dx t =
    (1 - t) * (1 - t) * (y0 * (1 + 2 * t) + s0 * dx)
    + t * t * (y1 * (3 - 2 * t) + dx * s1 * (t - 1))"

definition range_message :: "real \<Rightarrow> real \<Rightarrow> real \<Rightarrow> message" where
  "range_message x lo hi =
    [Str ''Requested abscissa x = '', Num x,
     Str '', which is outside of allowed range ['', Num lo, Str '', '', Num hi, Str '']'']"

text \<open>
  Lines 66 to 85, entered once the two range tests have passed: \<open>it\<close> is the position
  \<^verbatim>\<open>std::upper_bound\<close> returns and \<open>i = it - 1\<close>. The reads are \<^verbatim>\<open>*(it-1)\<close>, \<^verbatim>\<open>*it\<close>,
  \<^verbatim>\<open>y_[i]\<close>, \<^verbatim>\<open>y_[i+1]\<close>, \<^verbatim>\<open>s_[i]\<close> and \<^verbatim>\<open>s_[i+1]\<close>.
\<close>

definition segment_value :: "makima \<Rightarrow> real \<Rightarrow> error + real option" where
  "segment_value m x =
    (let it = upper_bound (x_vec m) x in
     if it = 0 \<or> length (x_vec m) \<le> it \<or> length (y_vec m) \<le> it \<or> length (s_vec m) \<le> it
     then Inl Undefined_Access
     else
       let i = it - 1;
           x0 = x_vec m ! (it - 1);
           x1 = x_vec m ! it;
           y0 = y_vec m ! i;
           y1 = y_vec m ! (i + 1);
           dx = x1 - x0
       in Inr (case (s_vec m ! i, s_vec m ! (i + 1), fdiv (x - x0) dx) of
                 (Some s0, Some s1, Some t) \<Rightarrow> Some (hermite y0 y1 s0 s1 dx t)
               | _ \<Rightarrow> None))"

text \<open>Lines 54 to 86.\<close>

definition evaluate :: "makima \<Rightarrow> real \<Rightarrow> error + real option" where
  "evaluate m x =
    (if x_vec m = [] then Inl Undefined_Access
     else if x < x_vec m ! 0 \<or> x > x_vec m ! (length (x_vec m) - 1)
     then Inl (Domain_Error (range_message x (x_vec m ! 0) (x_vec m ! (length (x_vec m) - 1))))
     else if x = x_vec m ! (length (x_vec m) - 1)
     then (if y_vec m = [] then Inl Undefined_Access
           else Inr (Some (y_vec m ! (length (y_vec m) - 1))))
     else segment_value m x)"

subsection \<open>The standard form of the Hermite cubic\<close>

text \<open>
  The form the comment of lines 80 and 81 writes down before factoring it further.
\<close>

definition hermite_commented :: "real \<Rightarrow> real \<Rightarrow> real \<Rightarrow> real \<Rightarrow> real \<Rightarrow> real \<Rightarrow> real" where
  "hermite_commented y0 y1 s0 s1 dx t =
    y0 * (1 + 2 * t) * (1 - t) * (1 - t) + dx * s0 * t * (1 - t) * (1 - t)
    + y1 * t * t * (3 - 2 * t) + dx * s1 * t * t * (t - 1)"

text \<open>
  The specification's \<open>y0 h00(t) + dx m0 h10(t) + y1 h01(t) + dx m1 h11(t)\<close>, with the
  Hermite basis polynomials in their expanded form.
\<close>

definition h00 :: "real \<Rightarrow> real" where
  "h00 t = 2 * t ^ 3 - 3 * t ^ 2 + 1"

definition h10 :: "real \<Rightarrow> real" where
  "h10 t = t ^ 3 - 2 * t ^ 2 + t"

definition h01 :: "real \<Rightarrow> real" where
  "h01 t = - 2 * t ^ 3 + 3 * t ^ 2"

definition h11 :: "real \<Rightarrow> real" where
  "h11 t = t ^ 3 - t ^ 2"

definition hermite_standard :: "real \<Rightarrow> real \<Rightarrow> real \<Rightarrow> real \<Rightarrow> real \<Rightarrow> real \<Rightarrow> real" where
  "hermite_standard y0 y1 m0 m1 dx t =
    y0 * h00 t + dx * m0 * h10 t + y1 * h01 t + dx * m1 * h11 t"

subsection \<open>The arithmetic of the element type as a parameter\<close>

text \<open>
  The class is a template: \<^verbatim>\<open>Real\<close> is the element type of the container, and the code
  reaches its numbers only through \<^verbatim>\<open>+\<close>, \<^verbatim>\<open>-\<close>, \<^verbatim>\<open>*\<close>, \<^verbatim>\<open>/\<close>, \<^verbatim>\<open>abs\<close>, the comparisons and
  the conversion of an integer literal. The definitions of this subsection are the same
  lines of the source with these operations taken from a record, so that they can be read
  in the exact arithmetic of the definitions above and in the rounding arithmetic of
  \<^verbatim>\<open>double\<close>.
\<close>

record 'a arith =
  r_lit :: "int \<Rightarrow> 'a"
  r_add :: "'a \<Rightarrow> 'a \<Rightarrow> 'a"
  r_sub :: "'a \<Rightarrow> 'a \<Rightarrow> 'a"
  r_mul :: "'a \<Rightarrow> 'a \<Rightarrow> 'a"
  r_div :: "'a \<Rightarrow> 'a \<Rightarrow> 'a"
  r_abs :: "'a \<Rightarrow> 'a"
  r_lt :: "'a \<Rightarrow> 'a \<Rightarrow> bool"
  r_le :: "'a \<Rightarrow> 'a \<Rightarrow> bool"
  r_eq :: "'a \<Rightarrow> 'a \<Rightarrow> bool"

record 'a makima_in =
  x_in :: "'a list"
  y_in :: "'a list"
  s_in :: "'a list"

text \<open>
  Lines 33 to 40.
\<close>

fun check_increasing_in :: "'a arith \<Rightarrow> 'a \<Rightarrow> 'a list \<Rightarrow> bool" where
  "check_increasing_in A x0 [] = True"
| "check_increasing_in A x0 (x1 # xs) =
     (if r_le A x1 x0 then False else check_increasing_in A x1 xs)"

text \<open>
  Lines 44 to 50.
\<close>

definition slope_at_in :: "'a arith \<Rightarrow> 'a list \<Rightarrow> 'a list \<Rightarrow> nat \<Rightarrow> 'a" where
  "slope_at_in A x y i =
    (let mim2 = r_div A (r_sub A (y ! (i - 1)) (y ! (i - 2))) (r_sub A (x ! (i - 1)) (x ! (i - 2)));
         mim1 = r_div A (r_sub A (y ! i) (y ! (i - 1))) (r_sub A (x ! i) (x ! (i - 1)));
         mi = r_div A (r_sub A (y ! (i + 1)) (y ! i)) (r_sub A (x ! (i + 1)) (x ! i));
         mip1 = r_div A (r_sub A (y ! (i + 2)) (y ! (i + 1))) (r_sub A (x ! (i + 2)) (x ! (i + 1)));
         numerator = r_add A (r_mul A (r_abs A (r_sub A mip1 mi)) mim1)
                             (r_mul A (r_abs A (r_sub A mim1 mim2)) mi);
         denominator = r_add A (r_abs A (r_sub A mip1 mi)) (r_abs A (r_sub A mim1 mim2))
     in r_div A numerator denominator)"

text \<open>
  Lines 43 to 51.
\<close>

function slopes_loop_in :: "'a arith \<Rightarrow> 'a list \<Rightarrow> 'a list \<Rightarrow> nat \<Rightarrow> 'a list \<Rightarrow> 'a list" where
  "slopes_loop_in A x y i s =
    (if i < size_sub (length s) 2
     then slopes_loop_in A x y (i + 1) (s[i := slope_at_in A x y i])
     else s)"
  by pat_completeness auto
termination
  by (relation "measure (\<lambda>(A, x, y, i, s). size_sub (length s) 2 - i)") auto

text \<open>
  Lines 22 to 52.
\<close>

definition makima_ctor_in :: "'a arith \<Rightarrow> 'a list \<Rightarrow> 'a list \<Rightarrow> error + 'a makima_in" where
  "makima_ctor_in A x y =
    (if length x \<noteq> length y then Inl (Domain_Error length_message)
     else if length x < 2 then Inl (Domain_Error points_message)
     else if \<not> check_increasing_in A (x ! 0) (drop 1 x) then Inl (Domain_Error order_message)
     else Inr \<lparr>x_in = x, y_in = y,
               s_in = slopes_loop_in A x y 2 (replicate (length x) (r_lit A 0))\<rparr>)"




subsection \<open>Exact arithmetic\<close>

text \<open>
  The arithmetic of the first definitions: real numbers, \<open>None\<close> for the quotient by zero
  and for everything computed from it; a comparison with \<open>None\<close> is false.
\<close>

definition exact :: "real option arith" where
  "exact =
    \<lparr>r_lit = (\<lambda>n. Some (of_int n)),
     r_add = (\<lambda>a b. case (a, b) of (Some a, Some b) \<Rightarrow> Some (a + b) | _ \<Rightarrow> None),
     r_sub = (\<lambda>a b. case (a, b) of (Some a, Some b) \<Rightarrow> Some (a - b) | _ \<Rightarrow> None),
     r_mul = (\<lambda>a b. case (a, b) of (Some a, Some b) \<Rightarrow> Some (a * b) | _ \<Rightarrow> None),
     r_div = (\<lambda>a b. case (a, b) of (Some a, Some b) \<Rightarrow> fdiv a b | _ \<Rightarrow> None),
     r_abs = map_option abs,
     r_lt = (\<lambda>a b. case (a, b) of (Some a, Some b) \<Rightarrow> a < b | _ \<Rightarrow> False),
     r_le = (\<lambda>a b. case (a, b) of (Some a, Some b) \<Rightarrow> a \<le> b | _ \<Rightarrow> False),
     r_eq = (\<lambda>a b. case (a, b) of (Some a, Some b) \<Rightarrow> a = b | _ \<Rightarrow> False)\<rparr>"

subsection \<open>The arithmetic of \<^verbatim>\<open>double\<close>\<close>

text \<open>
  IEEE 754 binary64 with rounding to nearest, ties to even, every operation rounded once.
  A finite value is the real number it stands for, so the two zeros are one value: the
  sign of a zero shows only in a quotient by zero, and the one divisor of the constructor
  that can be zero is a sum of absolute values. The result of an operation on finite
  values is the exact result rounded by \<open>round64\<close>.
\<close>

datatype binary64 = Fin real | PInf | NInf | NaN

text \<open>
  The number of binary digits of a positive integer.
\<close>

function bitlen :: "int \<Rightarrow> int" where
  "bitlen n = (if n \<le> 0 then 0 else 1 + bitlen (n div 2))"
  by pat_completeness auto
termination
  by (relation "measure nat") auto

definition pow2 :: "int \<Rightarrow> real" where
  "pow2 e = (if 0 \<le> e then 2 ^ nat e else 1 / 2 ^ nat (- e))"

text \<open>
  For \<open>x \<noteq> 0\<close>, the exponent \<open>e\<close> with \<open>2^e \<le> |x| < 2^(e+1)\<close>.
\<close>

definition ilog2 :: "real \<Rightarrow> int" where
  "ilog2 x =
    (if 1 \<le> \<bar>x\<bar> then bitlen \<lfloor>\<bar>x\<bar>\<rfloor> - 1
     else let k = bitlen \<lfloor>1 / \<bar>x\<bar>\<rfloor> - 1
          in if 1 / \<bar>x\<bar> = pow2 k then - k else - (k + 1))"

text \<open>
  The integer nearest to \<open>r\<close>, the even one of the two when \<open>r\<close> is half way.
\<close>

definition nearest_even :: "real \<Rightarrow> int" where
  "nearest_even r =
    (let f = \<lfloor>r\<rfloor>; d = r - of_int f
     in if d < 1 / 2 then f else if 1 / 2 < d then f + 1 else if even f then f else f + 1)"

text \<open>
  Rounding: 53 significant binary digits for a normal number, multiples of \<open>2^-1074\<close>
  below \<open>2^-1022\<close>, an infinity when the rounded magnitude reaches \<open>2^1024\<close>.
\<close>

definition round64 :: "real \<Rightarrow> binary64" where
  "round64 x =
    (if x = 0 then Fin 0
     else let e = max (ilog2 x) (- 1022);
              u = pow2 (e - 52);
              r = of_int (nearest_even (x / u)) * u
          in if pow2 1024 \<le> \<bar>r\<bar> then (if 0 < x then PInf else NInf) else Fin r)"

fun b64_neg :: "binary64 \<Rightarrow> binary64" where
  "b64_neg (Fin a) = Fin (- a)"
| "b64_neg PInf = NInf"
| "b64_neg NInf = PInf"
| "b64_neg NaN = NaN"

fun b64_add :: "binary64 \<Rightarrow> binary64 \<Rightarrow> binary64" where
  "b64_add (Fin a) (Fin b) = round64 (a + b)"
| "b64_add NaN _ = NaN"
| "b64_add _ NaN = NaN"
| "b64_add PInf NInf = NaN"
| "b64_add NInf PInf = NaN"
| "b64_add PInf _ = PInf"
| "b64_add NInf _ = NInf"
| "b64_add _ PInf = PInf"
| "b64_add _ NInf = NInf"

definition b64_sub :: "binary64 \<Rightarrow> binary64 \<Rightarrow> binary64" where
  "b64_sub a b = b64_add a (b64_neg b)"

fun b64_sign :: "binary64 \<Rightarrow> int" where
  "b64_sign (Fin a) = (if 0 < a then 1 else if a < 0 then - 1 else 0)"
| "b64_sign PInf = 1"
| "b64_sign NInf = - 1"
| "b64_sign NaN = 0"

definition b64_inf :: "int \<Rightarrow> binary64" where
  "b64_inf s = (if 0 < s then PInf else if s < 0 then NInf else NaN)"

fun b64_mul :: "binary64 \<Rightarrow> binary64 \<Rightarrow> binary64" where
  "b64_mul (Fin a) (Fin b) = round64 (a * b)"
| "b64_mul NaN _ = NaN"
| "b64_mul _ NaN = NaN"
| "b64_mul a b = b64_inf (b64_sign a * b64_sign b)"

fun b64_div :: "binary64 \<Rightarrow> binary64 \<Rightarrow> binary64" where
  "b64_div (Fin a) (Fin b) = (if b = 0 then b64_inf (b64_sign (Fin a)) else round64 (a / b))"
| "b64_div NaN _ = NaN"
| "b64_div _ NaN = NaN"
| "b64_div (Fin a) _ = Fin 0"
| "b64_div a (Fin b) = b64_inf (b64_sign a * (if b < 0 then - 1 else 1))"
| "b64_div _ _ = NaN"

fun b64_abs :: "binary64 \<Rightarrow> binary64" where
  "b64_abs (Fin a) = Fin \<bar>a\<bar>"
| "b64_abs PInf = PInf"
| "b64_abs NInf = PInf"
| "b64_abs NaN = NaN"

fun b64_lt :: "binary64 \<Rightarrow> binary64 \<Rightarrow> bool" where
  "b64_lt (Fin a) (Fin b) = (a < b)"
| "b64_lt NaN _ = False"
| "b64_lt _ NaN = False"
| "b64_lt PInf _ = False"
| "b64_lt _ NInf = False"
| "b64_lt NInf _ = True"
| "b64_lt _ PInf = True"

definition b64_eq :: "binary64 \<Rightarrow> binary64 \<Rightarrow> bool" where
  "b64_eq a b = (a = b \<and> a \<noteq> NaN)"

definition b64_le :: "binary64 \<Rightarrow> binary64 \<Rightarrow> bool" where
  "b64_le a b = (b64_lt a b \<or> b64_eq a b)"

definition binary64 :: "binary64 arith" where
  "binary64 = \<lparr>r_lit = (\<lambda>n. Fin (of_int n)), r_add = b64_add, r_sub = b64_sub, r_mul = b64_mul,
                r_div = b64_div, r_abs = b64_abs, r_lt = b64_lt, r_le = b64_le, r_eq = b64_eq\<rparr>"

section \<open>Properties\<close>

subsection \<open>The loops\<close>

text \<open>
  The two loop equations rewrite a call into itself, so they are applied by hand.
\<close>

declare slopes_loop.simps [simp del]
declare upper_bound_loop.simps [simp del]
declare slopes_loop_in.simps [simp del]
declare bitlen.simps [simp del]

lemma check_increasing_sorted: "check_increasing x0 xs \<longleftrightarrow> sorted_wrt (<) (x0 # xs)"
  by (induction xs arbitrary: x0) (auto intro: order.strict_trans)

lemma check_increasing_whole:
  assumes "xs \<noteq> []"
  shows "check_increasing (xs ! 0) (drop 1 xs) \<longleftrightarrow> sorted_wrt (<) xs"
proof (cases xs)
  case Nil
  with assms show ?thesis by simp
next
  case (Cons a as)
  then show ?thesis by (simp add: check_increasing_sorted)
qed

lemma sorted_wrt_less_adjacent:
  "sorted_wrt (<) (xs :: real list) \<longleftrightarrow> (\<forall>i. 0 < i \<and> i < length xs \<longrightarrow> xs ! (i - 1) < xs ! i)"
proof -
  have "sorted_wrt (<) xs \<longleftrightarrow> (\<forall>i. Suc i < length xs \<longrightarrow> xs ! i < xs ! Suc i)"
    by (rule sorted_wrt_iff_nth_Suc_transp) (simp add: transp_on_def)
  also have "\<dots> \<longleftrightarrow> (\<forall>i. 0 < i \<and> i < length xs \<longrightarrow> xs ! (i - 1) < xs ! i)"
  proof
    assume h: "\<forall>i. Suc i < length xs \<longrightarrow> xs ! i < xs ! Suc i"
    show "\<forall>i. 0 < i \<and> i < length xs \<longrightarrow> xs ! (i - 1) < xs ! i"
    proof (intro allI impI)
      fix i assume "0 < i \<and> i < length xs"
      then have "Suc (i - 1) < length xs" "Suc (i - 1) = i" by simp_all
      with h show "xs ! (i - 1) < xs ! i" by metis
    qed
  next
    assume h: "\<forall>i. 0 < i \<and> i < length xs \<longrightarrow> xs ! (i - 1) < xs ! i"
    show "\<forall>i. Suc i < length xs \<longrightarrow> xs ! i < xs ! Suc i"
    proof (intro allI impI)
      fix i assume "Suc i < length xs"
      with h have "xs ! (Suc i - 1) < xs ! Suc i" by blast
      then show "xs ! i < xs ! Suc i" by simp
    qed
  qed
  finally show ?thesis .
qed

text \<open>
  The halving search on a sorted sequence: everything before the returned position is at
  most \<open>v\<close>, everything from it on is above \<open>v\<close>.
\<close>

lemma upper_bound_loop_spec:
  "sorted xs \<Longrightarrow> first + len \<le> length xs \<Longrightarrow> (\<forall>j<first. xs ! j \<le> v) \<Longrightarrow>
   (\<forall>j. first + len \<le> j \<and> j < length xs \<longrightarrow> v < xs ! j) \<Longrightarrow>
   first \<le> upper_bound_loop xs v first len \<and> upper_bound_loop xs v first len \<le> first + len \<and>
   (\<forall>j<upper_bound_loop xs v first len. xs ! j \<le> v) \<and>
   (\<forall>j. upper_bound_loop xs v first len \<le> j \<and> j < length xs \<longrightarrow> v < xs ! j)"
proof (induction xs v first len rule: upper_bound_loop.induct)
  case (1 xs v first len)
  show ?case
  proof (cases "len = 0")
    case True
    then have "upper_bound_loop xs v first len = first"
      by (subst upper_bound_loop.simps) simp
    with True "1.prems" show ?thesis by simp
  next
    case False
    define half where "half = len div 2"
    define middle where "middle = first + half"
    have hl: "half < len" using False by (simp add: half_def)
    have ml: "middle < length xs" using hl "1.prems"(2) by (simp add: middle_def)
    show ?thesis
    proof (cases "v < xs ! middle")
      case True
      have above: "\<forall>j. first + half \<le> j \<and> j < length xs \<longrightarrow> v < xs ! j"
      proof (intro allI impI)
        fix j assume j: "first + half \<le> j \<and> j < length xs"
        then have "xs ! middle \<le> xs ! j"
          using "1.prems"(1) by (simp add: middle_def sorted_iff_nth_mono)
        with True show "v < xs ! j" by simp
      qed
      have bound: "first + half \<le> length xs" using ml by (simp add: middle_def)
      have eq: "upper_bound_loop xs v first len = upper_bound_loop xs v first half"
        using False True by (subst upper_bound_loop.simps) (simp add: half_def middle_def Let_def)
      have "first \<le> upper_bound_loop xs v first half \<and> upper_bound_loop xs v first half \<le> first + half \<and>
            (\<forall>j<upper_bound_loop xs v first half. xs ! j \<le> v) \<and>
            (\<forall>j. upper_bound_loop xs v first half \<le> j \<and> j < length xs \<longrightarrow> v < xs ! j)"
        using "1.IH"(1)[OF False half_def middle_def True "1.prems"(1) bound "1.prems"(3) above] .
      with eq hl show ?thesis by auto
    next
      case nlt: False
      have below: "\<forall>j<middle + 1. xs ! j \<le> v"
      proof (intro allI impI)
        fix j assume "j < middle + 1"
        then have "xs ! j \<le> xs ! middle"
          using "1.prems"(1) ml by (simp add: sorted_iff_nth_mono)
        with nlt show "xs ! j \<le> v" by simp
      qed
      have sum: "middle + 1 + (len - half - 1) = first + len"
        using hl by (simp add: middle_def)
      have bound: "middle + 1 + (len - half - 1) \<le> length xs"
        using sum "1.prems"(2) by simp
      have above: "\<forall>j. middle + 1 + (len - half - 1) \<le> j \<and> j < length xs \<longrightarrow> v < xs ! j"
        using sum "1.prems"(4) by simp
      have eq: "upper_bound_loop xs v first len = upper_bound_loop xs v (middle + 1) (len - half - 1)"
        using False nlt by (subst upper_bound_loop.simps) (simp add: half_def middle_def Let_def)
      have "middle + 1 \<le> upper_bound_loop xs v (middle + 1) (len - half - 1) \<and>
            upper_bound_loop xs v (middle + 1) (len - half - 1) \<le> middle + 1 + (len - half - 1) \<and>
            (\<forall>j<upper_bound_loop xs v (middle + 1) (len - half - 1). xs ! j \<le> v) \<and>
            (\<forall>j. upper_bound_loop xs v (middle + 1) (len - half - 1) \<le> j \<and> j < length xs \<longrightarrow> v < xs ! j)"
        using "1.IH"(2)[OF False half_def middle_def nlt "1.prems"(1) bound below above] .
      with eq sum show ?thesis by (auto simp: middle_def)
    qed
  qed
qed

lemma upper_bound_spec:
  assumes "sorted xs"
  shows "upper_bound xs v \<le> length xs"
    and "j < upper_bound xs v \<Longrightarrow> xs ! j \<le> v"
    and "upper_bound xs v \<le> j \<Longrightarrow> j < length xs \<Longrightarrow> v < xs ! j"
  using upper_bound_loop_spec[of xs 0 "length xs" v] assms
  by (simp_all add: upper_bound_def)

text \<open>
  The slope loop started at \<open>i\<close> writes the positions from \<open>i\<close> up to the bound, once each,
  and leaves the others as they were.
\<close>

lemma length_slopes_loop: "length (slopes_loop x y i s) = length s"
proof (induction x y i s rule: slopes_loop.induct)
  case (1 x y i s)
  show ?case
  proof (cases "i < size_sub (length s) 2")
    case True
    have "slopes_loop x y i s = slopes_loop x y (i + 1) (s[i := slope_at x y i])"
      using True by (subst slopes_loop.simps) simp
    with "1.IH"[OF True] show ?thesis by simp
  next
    case False
    then show ?thesis by (subst slopes_loop.simps) simp
  qed
qed

lemma nth_slopes_loop:
  "j < length s \<Longrightarrow>
   slopes_loop x y i s ! j =
     (if i \<le> j \<and> j < size_sub (length s) 2 then slope_at x y j else s ! j)"
proof (induction x y i s rule: slopes_loop.induct)
  case (1 x y i s)
  show ?case
  proof (cases "i < size_sub (length s) 2")
    case True
    have "slopes_loop x y i s ! j = slopes_loop x y (i + 1) (s[i := slope_at x y i]) ! j"
      using True by (subst slopes_loop.simps) simp
    also have "\<dots> = (if i + 1 \<le> j \<and> j < size_sub (length s) 2 then slope_at x y j
                      else s[i := slope_at x y i] ! j)"
      using "1.IH"[OF True] "1.prems" by simp
    also have "\<dots> = (if i \<le> j \<and> j < size_sub (length s) 2 then slope_at x y j else s ! j)"
      using True "1.prems" by (cases "i = j") auto
    finally show ?thesis .
  next
    case False
    then show ?thesis by (subst slopes_loop.simps) auto
  qed
qed

subsection \<open>Construction\<close>

lemma makima_ctor_Inr:
  "makima_ctor x y = Inr m \<longleftrightarrow>
     length x = length y \<and> 2 \<le> length x \<and> sorted_wrt (<) x \<and>
     m = \<lparr>x_vec = x, y_vec = y, s_vec = slopes_loop x y 2 (replicate (length x) (Some 0))\<rparr>"
proof (cases "length x = length y \<and> 2 \<le> length x")
  case True
  then have "x \<noteq> []" by auto
  then have "check_increasing (x ! 0) (drop 1 x) \<longleftrightarrow> sorted_wrt (<) x"
    by (rule check_increasing_whole)
  then show ?thesis using True
    by (auto simp: makima_ctor_def)
next
  case False
  then show ?thesis by (auto simp: makima_ctor_def)
qed

text \<open>
  Claim C5. The constructor throws the length error when the two sequences differ in length,
  whatever else is wrong with them; with equal lengths it throws the two-points error
  below two points; with equal lengths and at least two points it throws the order error
  when some abscissa is not above its predecessor; and it returns an object holding the
  two sequences when every abscissa is above its predecessor. A throw returns no object.
  The three messages differ.
\<close>

theorem makima_ctor_validation:
  "(length x \<noteq> length y \<longrightarrow> makima_ctor x y = Inl (Domain_Error length_message)) \<and>
   (length x = length y \<and> length x < 2 \<longrightarrow> makima_ctor x y = Inl (Domain_Error points_message)) \<and>
   (length x = length y \<and> 2 \<le> length x \<and> (\<exists>i. 0 < i \<and> i < length x \<and> x ! i \<le> x ! (i - 1)) \<longrightarrow>
      makima_ctor x y = Inl (Domain_Error order_message)) \<and>
   (length x = length y \<and> 2 \<le> length x \<and> (\<forall>i. 0 < i \<and> i < length x \<longrightarrow> x ! (i - 1) < x ! i) \<longrightarrow>
      (\<exists>m. makima_ctor x y = Inr m \<and> x_vec m = x \<and> y_vec m = y \<and> length (s_vec m) = length x)) \<and>
   length_message \<noteq> points_message \<and> length_message \<noteq> order_message \<and>
   points_message \<noteq> order_message"
proof (intro conjI impI)
  assume "length x \<noteq> length y"
  then show "makima_ctor x y = Inl (Domain_Error length_message)"
    by (simp add: makima_ctor_def)
next
  assume "length x = length y \<and> length x < 2"
  then show "makima_ctor x y = Inl (Domain_Error points_message)"
    by (simp add: makima_ctor_def)
next
  assume h: "length x = length y \<and> 2 \<le> length x \<and> (\<exists>i. 0 < i \<and> i < length x \<and> x ! i \<le> x ! (i - 1))"
  then have ne: "x \<noteq> []" by auto
  from h have "\<not> (\<forall>i. 0 < i \<and> i < length x \<longrightarrow> x ! (i - 1) < x ! i)"
    by (auto simp: not_less)
  then have "\<not> sorted_wrt (<) x"
    using sorted_wrt_less_adjacent[of x] by blast
  then have "\<not> check_increasing (x ! 0) (drop 1 x)"
    using check_increasing_whole[OF ne] by blast
  with h show "makima_ctor x y = Inl (Domain_Error order_message)"
    by (simp add: makima_ctor_def)
next
  assume h: "length x = length y \<and> 2 \<le> length x \<and> (\<forall>i. 0 < i \<and> i < length x \<longrightarrow> x ! (i - 1) < x ! i)"
  then have "sorted_wrt (<) x"
    using sorted_wrt_less_adjacent[of x] by blast
  with h have "makima_ctor x y =
      Inr \<lparr>x_vec = x, y_vec = y, s_vec = slopes_loop x y 2 (replicate (length x) (Some 0))\<rparr>"
    by (simp add: makima_ctor_Inr)
  then show "\<exists>m. makima_ctor x y = Inr m \<and> x_vec m = x \<and> y_vec m = y \<and> length (s_vec m) = length x"
    by (simp add: length_slopes_loop)
next
  show "length_message \<noteq> points_message"
    by (simp add: length_message_def points_message_def)
  show "length_message \<noteq> order_message"
    by (simp add: length_message_def order_message_def)
  show "points_message \<noteq> order_message"
    by (simp add: points_message_def order_message_def)
qed

theorem makima_ctor_validation_witness:
  "makima_ctor [1, 2, 2, 3] [0, 1, 2] = Inl (Domain_Error length_message) \<and>
   makima_ctor [1] [1] = Inl (Domain_Error points_message) \<and>
   makima_ctor [1, 2, 2, 3] [0, 1, 2, 3] = Inl (Domain_Error order_message) \<and>
   (\<exists>m. makima_ctor [0, 1, 2] [0, 1, 0] = Inr m \<and> x_vec m = [0, 1, 2] \<and> y_vec m = [0, 1, 0]
        \<and> length (s_vec m) = length [0, 1, 2 :: real])"
proof (intro conjI)
  show "makima_ctor [1, 2, 2, 3] [0, 1, 2] = Inl (Domain_Error length_message)"
    using makima_ctor_validation[of "[1, 2, 2, 3]" "[0, 1, 2]"] by simp
  show "makima_ctor [1] [1] = Inl (Domain_Error points_message)"
    using makima_ctor_validation[of "[1]" "[1]"] by simp
  have "\<exists>i. 0 < i \<and> i < length [1, 2, 2, 3 :: real] \<and> [1, 2, 2, 3 :: real] ! i \<le> [1, 2, 2, 3] ! (i - 1)"
    by (rule exI[of _ 2]) simp
  then show "makima_ctor [1, 2, 2, 3] [0, 1, 2, 3] = Inl (Domain_Error order_message)"
    using makima_ctor_validation[of "[1, 2, 2, 3]" "[0, 1, 2, 3]"] by simp
  have "sorted_wrt (<) [0, 1, 2 :: real]" by simp
  then have "\<forall>i. 0 < i \<and> i < length [0, 1, 2 :: real] \<longrightarrow> [0, 1, 2 :: real] ! (i - 1) < [0, 1, 2] ! i"
    using sorted_wrt_less_adjacent[of "[0, 1, 2]"] by blast
  then show "\<exists>m. makima_ctor [0, 1, 2] [0, 1, 0] = Inr m \<and> x_vec m = [0, 1, 2] \<and> y_vec m = [0, 1, 0]
        \<and> length (s_vec m) = length [0, 1, 2 :: real]"
    using makima_ctor_validation[of "[0, 1, 2]" "[0, 1, 0]"] by simp
qed

subsection \<open>The slope vector\<close>

lemma size_sub_exact: "2 \<le> n \<Longrightarrow> size_sub n 2 = n - 2"
  by (simp add: size_sub_def)

lemma makima_ctor_slopes:
  assumes "makima_ctor x y = Inr m" and "j < length x"
  shows "s_vec m ! j = (if 2 \<le> j \<and> j < length x - 2 then slope_at x y j else Some 0)"
proof -
  from assms(1) have n: "2 \<le> length x"
    and m: "m = \<lparr>x_vec = x, y_vec = y, s_vec = slopes_loop x y 2 (replicate (length x) (Some 0))\<rparr>"
    by (simp_all add: makima_ctor_Inr)
  have "s_vec m ! j = slopes_loop x y 2 (replicate (length x) (Some 0)) ! j"
    by (simp add: m)
  also have "\<dots> = (if 2 \<le> j \<and> j < size_sub (length x) 2 then slope_at x y j
                    else replicate (length x) (Some 0) ! j)"
    using assms(2) nth_slopes_loop[of j "replicate (length x) (Some 0)" x y 2] by simp
  also have "\<dots> = (if 2 \<le> j \<and> j < length x - 2 then slope_at x y j else Some 0)"
    using assms(2) n by (simp add: size_sub_exact)
  finally show ?thesis .
qed

lemma makima_ctor_fields:
  assumes "makima_ctor x y = Inr m"
  shows "x_vec m = x" and "y_vec m = y" and "length (s_vec m) = length x"
    and "length y = length x" and "2 \<le> length x" and "sorted_wrt (<) x"
  using assms by (simp_all add: makima_ctor_Inr length_slopes_loop)

text \<open>
  Claim C10. After a successful construction the slope vector is as long as the abscissas,
  the loop bound \<^verbatim>\<open>s_.size()-2\<close> does not wrap, every entry at a position below 2 or from
  \<open>n - 2\<close> on is exactly zero, and with at most four points the bound is at most 2 and
  every entry is zero.
\<close>

theorem boundary_slopes_zero:
  assumes "makima_ctor x y = Inr m"
  shows "length (s_vec m) = length x \<and>
         size_sub (length (s_vec m)) 2 + 2 = length (s_vec m) \<and>
         (\<forall>j. j < length x \<and> (j < 2 \<or> length x - 2 \<le> j) \<longrightarrow> s_vec m ! j = Some 0) \<and>
         (length x \<le> 4 \<longrightarrow>
            size_sub (length (s_vec m)) 2 \<le> 2 \<and> s_vec m = replicate (length x) (Some 0))"
proof (intro conjI allI impI)
  show len: "length (s_vec m) = length x"
    using assms by (rule makima_ctor_fields)
  have n: "2 \<le> length x" using assms by (rule makima_ctor_fields)
  then show "size_sub (length (s_vec m)) 2 + 2 = length (s_vec m)"
    by (simp add: len size_sub_exact)
  show "size_sub (length (s_vec m)) 2 \<le> 2" if "length x \<le> 4"
    using that n by (simp add: len size_sub_exact)
  show "s_vec m ! j = Some 0" if "j < length x \<and> (j < 2 \<or> length x - 2 \<le> j)" for j
    using that makima_ctor_slopes[OF assms, of j] by auto
  show "s_vec m = replicate (length x) (Some 0)" if small: "length x \<le> 4"
  proof (rule nth_equalityI)
    show "length (s_vec m) = length (replicate (length x) (Some (0::real)))"
      by (simp add: len)
  next
    fix j assume "j < length (s_vec m)"
    then have j: "j < length x" by (simp add: len)
    then have "s_vec m ! j = Some 0"
      using small makima_ctor_slopes[OF assms, of j] by auto
    then show "s_vec m ! j = replicate (length x) (Some 0) ! j"
      using j by simp
  qed
qed

theorem boundary_slopes_zero_witness:
  "makima_ctor [0, 1, 2, 3, 4, 5] [0, 1, 4, 9, 16, 25] =
     Inr \<lparr>x_vec = [0, 1, 2, 3, 4, 5], y_vec = [0, 1, 4, 9, 16, 25],
          s_vec = [Some 0, Some 0, Some 4, Some 6, Some 0, Some 0]\<rparr> \<and>
   makima_ctor [0, 1, 2] [0, 1, 0] =
     Inr \<lparr>x_vec = [0, 1, 2], y_vec = [0, 1, 0], s_vec = [Some 0, Some 0, Some 0]\<rparr>"
proof -
  obtain m where c: "makima_ctor [0, 1, 2, 3, 4, 5] [0, 1, 4, 9, 16, 25] = Inr m"
    by (auto simp: makima_ctor_Inr)
  have z: "j < length [0, 1, 2, 3, 4, 5 :: real] \<and> (j < 2 \<or> length [0, 1, 2, 3, 4, 5 :: real] - 2 \<le> j)
           \<Longrightarrow> s_vec m ! j = Some 0" for j
    using boundary_slopes_zero[OF c] by blast
  have "s_vec m ! 0 = Some 0" "s_vec m ! 1 = Some 0" "s_vec m ! 4 = Some 0" "s_vec m ! 5 = Some 0"
    by (rule z, simp)+
  moreover have "s_vec m ! 2 = Some 4" "s_vec m ! 3 = Some 6"
    using makima_ctor_slopes[OF c, of 2] makima_ctor_slopes[OF c, of 3]
    by (simp_all add: slope_at_def fdiv_def)
  moreover have "length (s_vec m) = 6"
    using makima_ctor_fields(3)[OF c] by simp
  ultimately have "s_vec m = [Some 0, Some 0, Some 4, Some 6, Some 0, Some 0]"
    by (intro nth_equalityI) (auto simp: less_Suc_eq numeral_eq_Suc)
  then have c': "m = \<lparr>x_vec = [0, 1, 2, 3, 4, 5], y_vec = [0, 1, 4, 9, 16, 25],
          s_vec = [Some 0, Some 0, Some 4, Some 6, Some 0, Some 0]\<rparr>"
    using makima_ctor_fields(1,2)[OF c] by (cases m) simp
  obtain m' where d: "makima_ctor [0, 1, 2] [0, 1, 0] = Inr m'"
    by (auto simp: makima_ctor_Inr)
  have "s_vec m' = replicate (length [0, 1, 2 :: real]) (Some 0)"
    using boundary_slopes_zero[OF d] by simp
  then have d': "m' = \<lparr>x_vec = [0, 1, 2], y_vec = [0, 1, 0], s_vec = [Some 0, Some 0, Some 0]\<rparr>"
    using makima_ctor_fields(1,2)[OF d] by (cases m') (simp add: numeral_3_eq_3)
  show ?thesis
    using c c' d d' by simp
qed

lemma fdiv_Some: "b \<noteq> 0 \<Longrightarrow> fdiv a b = Some (a / b)"
  by (simp add: fdiv_def)

lemma slope_at_interior:
  assumes "sorted_wrt (<) x" and "2 \<le> i" and "i + 2 < length x"
  shows "slope_at x y i =
    fdiv (\<bar>(y ! (i + 2) - y ! (i + 1)) / (x ! (i + 2) - x ! (i + 1)) - (y ! (i + 1) - y ! i) / (x ! (i + 1) - x ! i)\<bar>
            * ((y ! i - y ! (i - 1)) / (x ! i - x ! (i - 1)))
          + \<bar>(y ! i - y ! (i - 1)) / (x ! i - x ! (i - 1)) - (y ! (i - 1) - y ! (i - 2)) / (x ! (i - 1) - x ! (i - 2))\<bar>
            * ((y ! (i + 1) - y ! i) / (x ! (i + 1) - x ! i)))
         (\<bar>(y ! (i + 2) - y ! (i + 1)) / (x ! (i + 2) - x ! (i + 1)) - (y ! (i + 1) - y ! i) / (x ! (i + 1) - x ! i)\<bar>
          + \<bar>(y ! i - y ! (i - 1)) / (x ! i - x ! (i - 1)) - (y ! (i - 1) - y ! (i - 2)) / (x ! (i - 1) - x ! (i - 2))\<bar>)"
proof -
  have lt: "x ! a < x ! b" if "a < b" "b < length x" for a b
    using assms(1) that by (simp add: sorted_wrt_iff_nth_less)
  have "x ! (i - 2) < x ! (i - 1)" using assms(2,3) by (intro lt) auto
  then have d1: "x ! (i - 1) - x ! (i - 2) \<noteq> 0" by simp
  have "x ! (i - 1) < x ! i" using assms(2,3) by (intro lt) auto
  then have d2: "x ! i - x ! (i - 1) \<noteq> 0" by simp
  have "x ! i < x ! (i + 1)" using assms(2,3) by (intro lt) auto
  then have d3: "x ! (i + 1) - x ! i \<noteq> 0" by simp
  have "x ! (i + 1) < x ! (i + 2)" using assms(2,3) by (intro lt) auto
  then have d4: "x ! (i + 2) - x ! (i + 1) \<noteq> 0" by simp
  show ?thesis
    unfolding slope_at_def fdiv_Some[OF d1] fdiv_Some[OF d2] fdiv_Some[OF d3] fdiv_Some[OF d4]
    by (simp add: Let_def)
qed

lemma weighted_mean_between:
  fixes a b p q :: real
  assumes "0 \<le> a" and "0 \<le> b" and "a + b \<noteq> 0"
  shows "min p q \<le> (a * p + b * q) / (a + b)" and "(a * p + b * q) / (a + b) \<le> max p q"
proof -
  have pos: "0 < a + b" using assms by linarith
  have "a * min p q \<le> a * p" "b * min p q \<le> b * q"
    using assms(1,2) by (simp_all add: mult_left_mono)
  then have "min p q * (a + b) \<le> a * p + b * q"
    by (simp add: algebra_simps)
  then show "min p q \<le> (a * p + b * q) / (a + b)"
    using pos by (simp add: pos_le_divide_eq)
  have "a * p \<le> a * max p q" "b * q \<le> b * max p q"
    using assms(1,2) by (simp_all add: mult_left_mono)
  then have "a * p + b * q \<le> max p q * (a + b)"
    by (simp add: algebra_simps)
  then show "(a * p + b * q) / (a + b) \<le> max p q"
    using pos by (simp add: pos_divide_le_eq)
qed

text \<open>
  In exact arithmetic the weighted mean lies between its two arguments, so the slope the
  constructor stores at an index \<open>i\<close> with \<open>2 \<le> i < n - 2\<close> lies between the two central
  secant slopes whenever the weights do not sum to zero.
\<close>

lemma slope_between_exact:
  assumes "makima_ctor x y = Inr m" and "2 \<le> i" and "i < length (x_vec m) - 2"
    and "mim2 = (y_vec m ! (i - 1) - y_vec m ! (i - 2)) / (x_vec m ! (i - 1) - x_vec m ! (i - 2))"
    and "mim1 = (y_vec m ! i - y_vec m ! (i - 1)) / (x_vec m ! i - x_vec m ! (i - 1))"
    and "mi = (y_vec m ! (i + 1) - y_vec m ! i) / (x_vec m ! (i + 1) - x_vec m ! i)"
    and "mip1 = (y_vec m ! (i + 2) - y_vec m ! (i + 1)) / (x_vec m ! (i + 2) - x_vec m ! (i + 1))"
    and "\<bar>mip1 - mi\<bar> + \<bar>mim1 - mim2\<bar> \<noteq> 0"
  shows "\<exists>s. s_vec m ! i = Some s \<and> min mim1 mi \<le> s \<and> s \<le> max mim1 mi"
proof -
  have xy: "x_vec m = x" "y_vec m = y"
    using assms(1) by (rule makima_ctor_fields)+
  have i3: "i < length x - 2" using assms(3) by (simp add: xy)
  then have i2: "i + 2 < length x" by simp
  have "s_vec m ! i = slope_at x y i"
    using makima_ctor_slopes[OF assms(1), of i] assms(2) i2 i3 by simp
  also have "\<dots> = fdiv (\<bar>mip1 - mi\<bar> * mim1 + \<bar>mim1 - mim2\<bar> * mi) (\<bar>mip1 - mi\<bar> + \<bar>mim1 - mim2\<bar>)"
    unfolding assms(4-7) xy
    by (rule slope_at_interior[OF makima_ctor_fields(6)[OF assms(1)] assms(2) i2])
  also have "\<dots> = Some ((\<bar>mip1 - mi\<bar> * mim1 + \<bar>mim1 - mim2\<bar> * mi) / (\<bar>mip1 - mi\<bar> + \<bar>mim1 - mim2\<bar>))"
    using assms(8) by (rule fdiv_Some)
  finally have "s_vec m ! i =
      Some ((\<bar>mip1 - mi\<bar> * mim1 + \<bar>mim1 - mim2\<bar> * mi) / (\<bar>mip1 - mi\<bar> + \<bar>mim1 - mim2\<bar>))" .
  moreover have "min mim1 mi \<le> (\<bar>mip1 - mi\<bar> * mim1 + \<bar>mim1 - mim2\<bar> * mi) / (\<bar>mip1 - mi\<bar> + \<bar>mim1 - mim2\<bar>)"
    using assms(8) by (intro weighted_mean_between) simp_all
  moreover have "(\<bar>mip1 - mi\<bar> * mim1 + \<bar>mim1 - mim2\<bar> * mi) / (\<bar>mip1 - mi\<bar> + \<bar>mim1 - mim2\<bar>) \<le> max mim1 mi"
    using assms(8) by (intro weighted_mean_between) simp_all
  ultimately show ?thesis by blast
qed

subsection \<open>Evaluation: the interval search\<close>

lemma upper_bound_locate:
  assumes "sorted xs" and "xs \<noteq> []" and "xs ! 0 \<le> q" and "q < xs ! (length xs - 1)"
  shows "0 < upper_bound xs q" and "upper_bound xs q < length xs"
    and "xs ! (upper_bound xs q - 1) \<le> q" and "q < xs ! upper_bound xs q"
proof -
  have n: "0 < length xs" using assms(2) by simp
  show pos: "0 < upper_bound xs q"
  proof (rule ccontr)
    assume "\<not> 0 < upper_bound xs q"
    then have "upper_bound xs q \<le> 0" by simp
    then have "q < xs ! 0" using n by (rule upper_bound_spec(3)[OF assms(1)])
    with assms(3) show False by simp
  qed
  show lt: "upper_bound xs q < length xs"
  proof (rule ccontr)
    assume "\<not> upper_bound xs q < length xs"
    then have "length xs - 1 < upper_bound xs q" using n by arith
    then have "xs ! (length xs - 1) \<le> q" by (rule upper_bound_spec(2)[OF assms(1)])
    with assms(4) show False by simp
  qed
  show "xs ! (upper_bound xs q - 1) \<le> q"
    using pos by (intro upper_bound_spec(2)[OF assms(1)]) simp
  show "q < xs ! upper_bound xs q"
    using lt by (intro upper_bound_spec(3)[OF assms(1)]) simp_all
qed

lemma makima_ctor_sorted:
  assumes "makima_ctor x y = Inr m"
  shows "sorted x" and "x \<noteq> []" and "x ! 0 < x ! (length x - 1)"
proof -
  have s: "sorted_wrt (<) x" and n: "2 \<le> length x"
    using assms by (rule makima_ctor_fields)+
  show "sorted x" using s by (rule strict_sorted_imp_sorted)
  show "x \<noteq> []" using n by auto
  show "x ! 0 < x ! (length x - 1)"
    using s n by (simp add: sorted_wrt_iff_nth_less)
qed

lemma segment_value_inside:
  assumes "makima_ctor x y = Inr m" and "x ! 0 \<le> q" and "q < x ! (length x - 1)"
    and "i = upper_bound x q - 1"
  shows "segment_value m q =
    Inr (case (s_vec m ! i, s_vec m ! (i + 1)) of
           (Some s0, Some s1) \<Rightarrow>
             Some (hermite (y ! i) (y ! (i + 1)) s0 s1 (x ! (i + 1) - x ! i)
                     ((q - x ! i) / (x ! (i + 1) - x ! i)))
         | _ \<Rightarrow> None)"
proof -
  note f = makima_ctor_fields[OF assms(1)]
  note loc = upper_bound_locate[OF makima_ctor_sorted(1,2)[OF assms(1)] assms(2,3)]
  have it: "upper_bound x q = i + 1" using loc(1) assms(4) by simp
  have "x ! i \<le> q" "q < x ! (i + 1)" using loc(3,4) by (simp_all add: it)
  then have dx: "x ! Suc i \<noteq> x ! i" by simp
  have guard: "\<not> (upper_bound x q = 0 \<or> length x \<le> upper_bound x q \<or>
        length y \<le> upper_bound x q \<or> length (s_vec m) \<le> upper_bound x q)"
    using loc(1,2) f(3,4) by simp
  show ?thesis
    unfolding segment_value_def f(1,2) Let_def if_not_P[OF guard]
    unfolding it
    by (simp add: fdiv_def dx split: option.splits)
qed

lemma evaluate_inside:
  assumes "makima_ctor x y = Inr m" and "x ! 0 \<le> q" and "q < x ! (length x - 1)"
  shows "evaluate m q = segment_value m q"
  using assms(2,3) makima_ctor_sorted(2)[OF assms(1)]
  by (simp add: evaluate_def makima_ctor_fields(1)[OF assms(1)])


subsection \<open>Evaluation: the range test and the last node\<close>

text \<open>
  Claim C4. On a constructed object the call throws exactly for a query below the first or
  above the last abscissa, and returns a value for every query in the closed range. The
  message thrown holds the query and both ends of the range. The operator is \<^verbatim>\<open>const\<close>:
  it is a function of the object and has no object to hand back changed.
\<close>

theorem evaluate_domain:
  assumes "makima_ctor x y = Inr m"
  shows "(q < x ! 0 \<or> q > x ! (length x - 1) \<longrightarrow>
           evaluate m q = Inl (Domain_Error (range_message q (x ! 0) (x ! (length x - 1))))) \<and>
         (x ! 0 \<le> q \<and> q \<le> x ! (length x - 1) \<longrightarrow> (\<exists>v. evaluate m q = Inr v)) \<and>
         ((\<exists>e. evaluate m q = Inl e) \<longleftrightarrow> q < x ! 0 \<or> q > x ! (length x - 1)) \<and>
         Num q \<in> set (range_message q (x ! 0) (x ! (length x - 1))) \<and>
         Num (x ! 0) \<in> set (range_message q (x ! 0) (x ! (length x - 1))) \<and>
         Num (x ! (length x - 1)) \<in> set (range_message q (x ! 0) (x ! (length x - 1)))"
proof -
  note f = makima_ctor_fields[OF assms]
  have ne: "x \<noteq> []" using assms by (rule makima_ctor_sorted)
  have yne: "y \<noteq> []" using f(4,5) by auto
  have out: "evaluate m q = Inl (Domain_Error (range_message q (x ! 0) (x ! (length x - 1))))"
    if "q < x ! 0 \<or> q > x ! (length x - 1)"
    using that ne by (simp add: evaluate_def f(1))
  have inside: "\<exists>v. evaluate m q = Inr v" if r: "x ! 0 \<le> q \<and> q \<le> x ! (length x - 1)"
  proof (cases "q = x ! (length x - 1)")
    case True
    then have "evaluate m q = Inr (Some (y ! (length y - 1)))"
      using r ne yne by (simp add: evaluate_def f(1,2))
    then show ?thesis by blast
  next
    case False
    with r have lt: "q < x ! (length x - 1)" by simp
    from r have ge: "x ! 0 \<le> q" by simp
    show ?thesis
      unfolding evaluate_inside[OF assms ge lt] segment_value_inside[OF assms ge lt refl]
      by blast
  qed
  have iff: "(\<exists>e. evaluate m q = Inl e) \<longleftrightarrow> q < x ! 0 \<or> q > x ! (length x - 1)"
  proof
    assume "\<exists>e. evaluate m q = Inl e"
    then have "\<not> (\<exists>v. evaluate m q = Inr v)" by auto
    with inside have "\<not> (x ! 0 \<le> q \<and> q \<le> x ! (length x - 1))" by blast
    then show "q < x ! 0 \<or> q > x ! (length x - 1)" by auto
  next
    assume "q < x ! 0 \<or> q > x ! (length x - 1)"
    then show "\<exists>e. evaluate m q = Inl e" using out by blast
  qed
  have msg: "Num q \<in> set (range_message q (x ! 0) (x ! (length x - 1)))"
    "Num (x ! 0) \<in> set (range_message q (x ! 0) (x ! (length x - 1)))"
    "Num (x ! (length x - 1)) \<in> set (range_message q (x ! 0) (x ! (length x - 1)))"
    by (simp_all add: range_message_def)
  show ?thesis using out inside iff msg by blast
qed

theorem evaluate_domain_witness:
  "makima_ctor [0, 1, 2, 3, 4] [0, 0, 1, 2, 4] =
     Inr \<lparr>x_vec = [0, 1, 2, 3, 4], y_vec = [0, 0, 1, 2, 4],
          s_vec = [Some 0, Some 0, Some 1, Some 0, Some 0]\<rparr> \<and>
   evaluate \<lparr>x_vec = [0, 1, 2, 3, 4], y_vec = [0, 0, 1, 2, 4],
          s_vec = [Some 0, Some 0, Some 1, Some 0, Some 0]\<rparr> 5 =
     Inl (Domain_Error [Str ''Requested abscissa x = '', Num 5,
       Str '', which is outside of allowed range ['', Num 0, Str '', '', Num 4, Str '']'']) \<and>
   evaluate \<lparr>x_vec = [0, 1, 2, 3, 4], y_vec = [0, 0, 1, 2, 4],
          s_vec = [Some 0, Some 0, Some 1, Some 0, Some 0]\<rparr> (- 1) =
     Inl (Domain_Error [Str ''Requested abscissa x = '', Num (- 1),
       Str '', which is outside of allowed range ['', Num 0, Str '', '', Num 4, Str '']'']) \<and>
   (\<exists>v. evaluate \<lparr>x_vec = [0, 1, 2, 3, 4], y_vec = [0, 0, 1, 2, 4],
          s_vec = [Some 0, Some 0, Some 1, Some 0, Some 0]\<rparr> (1 / 2) = Inr v)"
proof -
  have c: "makima_ctor [0, 1, 2, 3, 4] [0, 0, 1, 2, 4] =
     Inr \<lparr>x_vec = [0, 1, 2, 3, 4], y_vec = [0, 0, 1, 2, 4],
          s_vec = [Some 0, Some 0, Some 1, Some 0, Some 0]\<rparr>"
    by code_simp
  show ?thesis
    using c evaluate_domain[OF c, of 5] evaluate_domain[OF c, of "- 1"]
      evaluate_domain[OF c, of "1 / 2"]
    by (simp add: range_message_def)
qed

text \<open>
  Claim C6. At the last abscissa the call returns the last ordinate. It does so whatever
  the slope vector holds, even an empty one: neither the search nor the polynomial is
  reached.
\<close>

theorem evaluate_last_node:
  assumes "makima_ctor x y = Inr m"
  shows "evaluate m (x ! (length x - 1)) = Inr (Some (y ! (length y - 1))) \<and>
         (\<forall>s'. evaluate (m\<lparr>s_vec := s'\<rparr>) (x ! (length x - 1)) = Inr (Some (y ! (length y - 1))))"
proof -
  note f = makima_ctor_fields[OF assms]
  note s = makima_ctor_sorted[OF assms]
  have yne: "y \<noteq> []" using f(4,5) by auto
  have "evaluate (m\<lparr>s_vec := s'\<rparr>) (x ! (length x - 1)) = Inr (Some (y ! (length y - 1)))" for s'
    using s(2,3) yne by (simp add: evaluate_def f(1,2))
  moreover have "evaluate m (x ! (length x - 1)) = Inr (Some (y ! (length y - 1)))"
    using s(2,3) yne by (simp add: evaluate_def f(1,2))
  ultimately show ?thesis by blast
qed

theorem evaluate_last_node_witness:
  "makima_ctor [0, 1, 2] [0, 1, 0] =
     Inr \<lparr>x_vec = [0, 1, 2], y_vec = [0, 1, 0], s_vec = [Some 0, Some 0, Some 0]\<rparr> \<and>
   evaluate \<lparr>x_vec = [0, 1, 2], y_vec = [0, 1, 0], s_vec = [Some 0, Some 0, Some 0]\<rparr> 2 =
     Inr (Some 0) \<and>
   evaluate \<lparr>x_vec = [0, 1, 2], y_vec = [0, 1, 0], s_vec = []\<rparr> 2 = Inr (Some 0)"
proof -
  have c: "makima_ctor [0, 1, 2] [0, 1, 0] =
     Inr \<lparr>x_vec = [0, 1, 2], y_vec = [0, 1, 0], s_vec = [Some 0, Some 0, Some 0]\<rparr>"
    by code_simp
  have "evaluate (\<lparr>x_vec = [0, 1, 2], y_vec = [0, 1, 0], s_vec = [Some 0, Some 0, Some 0]\<rparr>\<lparr>s_vec := []\<rparr>)
          ([0, 1, 2] ! (length [0, 1, 2 :: real] - 1)) = Inr (Some ([0, 1, 0] ! (length [0, 1, 0 :: real] - 1)))"
    using evaluate_last_node[OF c] by blast
  then show ?thesis
    using c evaluate_last_node[OF c] by simp
qed

subsection \<open>Evaluation: the value at a node\<close>

text \<open>
  At a node the search returns the position after it, so \<open>t = 0\<close> there. At \<open>t = 0\<close> the
  polynomial of lines 83 and 84 is \<open>y0 + s0 dx\<close>, at \<open>t = 1\<close> it is \<open>y1\<close>.
\<close>

lemma upper_bound_at_node:
  assumes "sorted_wrt (<) xs" and "i < length xs"
  shows "upper_bound xs (xs ! i) = i + 1"
proof -
  have so: "sorted xs" using assms(1) by (rule strict_sorted_imp_sorted)
  have le: "upper_bound xs (xs ! i) \<le> i + 1"
  proof (rule ccontr)
    assume "\<not> upper_bound xs (xs ! i) \<le> i + 1"
    then have a: "i + 1 < upper_bound xs (xs ! i)" by simp
    then have "xs ! (i + 1) \<le> xs ! i" by (rule upper_bound_spec(2)[OF so])
    moreover have "i + 1 < length xs" using a upper_bound_spec(1)[OF so, of "xs ! i"] by simp
    then have "xs ! i < xs ! (i + 1)" using assms(1) by (simp add: sorted_wrt_iff_nth_less)
    ultimately show False by simp
  qed
  have "i < upper_bound xs (xs ! i)"
  proof (rule ccontr)
    assume "\<not> i < upper_bound xs (xs ! i)"
    then have "upper_bound xs (xs ! i) \<le> i" by simp
    then have "xs ! i < xs ! i" using assms(2) by (rule upper_bound_spec(3)[OF so])
    then show False by simp
  qed
  with le show ?thesis by simp
qed

lemma hermite_at_0: "hermite y0 y1 s0 s1 dx 0 = y0 + s0 * dx"
  by (simp add: hermite_def)

lemma hermite_at_1: "hermite y0 y1 s0 s1 dx 1 = y1"
  by (simp add: hermite_def)

lemma evaluate_at_node:
  assumes "makima_ctor x y = Inr m" and "i + 1 < length x"
    and "s_vec m ! i = Some s0" and "s_vec m ! (i + 1) = Some s1"
  shows "evaluate m (x ! i) = Inr (Some (y ! i + s0 * (x ! (i + 1) - x ! i)))"
proof -
  note f = makima_ctor_fields[OF assms(1)]
  have ge: "x ! 0 \<le> x ! i"
    using makima_ctor_sorted(1)[OF assms(1)] assms(2) by (simp add: sorted_iff_nth_mono)
  have lt: "x ! i < x ! (length x - 1)"
    using f(6) assms(2) by (simp add: sorted_wrt_iff_nth_less)
  have u: "i = upper_bound x (x ! i) - 1"
    using upper_bound_at_node[OF f(6), of i] assms(2) by simp
  have s1: "s_vec m ! Suc i = Some s1" using assms(4) by simp
  show ?thesis
    unfolding evaluate_inside[OF assms(1) ge lt] segment_value_inside[OF assms(1) ge lt u]
    by (simp add: assms(3) s1 hermite_at_0)
qed

subsection \<open>The polynomial against the standard form\<close>

text \<open>
  The form in the comment of lines 80 and 81 is the standard form. The expression of
  lines 83 and 84 has lost the factor \<open>t\<close> of the term \<open>dx s0 t (1-t)(1-t)\<close>: it exceeds the
  standard form by \<open>s0 dx (1-t)^3\<close>.
\<close>

lemma hermite_commented_standard:
  "hermite_commented y0 y1 s0 s1 dx t = hermite_standard y0 y1 s0 s1 dx t"
  by (simp add: hermite_commented_def hermite_standard_def h00_def h10_def h01_def h11_def
      power3_eq_cube power2_eq_square algebra_simps)

lemma hermite_excess:
  "hermite y0 y1 s0 s1 dx t = hermite_standard y0 y1 s0 s1 dx t + s0 * dx * (1 - t) ^ 3"
  by (simp add: hermite_def hermite_standard_def h00_def h10_def h01_def h11_def
      power3_eq_cube power2_eq_square algebra_simps)

text \<open>
  Claim C1, at the abscissas \<open>0, 1, 2, 3, 4\<close> with ordinates \<open>0, 0, 1, 2, 4\<close> and the query
  \<open>5/2\<close>: the call returns \<open>7/4\<close>, the value of lines 83 and 84 on the segment from 2 to 3
  at \<open>t = 1/2\<close>, where the standard form and the form of the comment both give \<open>13/8\<close>.
\<close>

theorem hermite_not_standard:
  "evaluate \<lparr>x_vec = [0, 1, 2, 3, 4], y_vec = [0, 0, 1, 2, 4],
          s_vec = [Some 0, Some 0, Some 1, Some 0, Some 0]\<rparr> (5 / 2) = Inr (Some (7 / 4)) \<and>
   hermite 1 2 1 0 1 (1 / 2) = 7 / 4 \<and>
   hermite_standard 1 2 1 0 1 (1 / 2) = 13 / 8 \<and>
   hermite_commented 1 2 1 0 1 (1 / 2) = 13 / 8"
proof (intro conjI)
  show "evaluate \<lparr>x_vec = [0, 1, 2, 3, 4], y_vec = [0, 0, 1, 2, 4],
          s_vec = [Some 0, Some 0, Some 1, Some 0, Some 0]\<rparr> (5 / 2) = Inr (Some (7 / 4))"
    by code_simp
  show "hermite 1 2 1 0 1 (1 / 2) = 7 / 4"
    by (simp add: hermite_def)
  show "hermite_standard 1 2 1 0 1 (1 / 2) = 13 / 8"
    by (simp add: hermite_standard_def h00_def h10_def h01_def h11_def power3_eq_cube power2_eq_square)
  show "hermite_commented 1 2 1 0 1 (1 / 2) = 13 / 8"
    by (simp add: hermite_commented_def)
qed

text \<open>
  Claim C2, on the same samples: the slope stored at index 2 is 1, and the call at the
  node \<open>x[2] = 2\<close> returns 2 where the ordinate \<open>y[2]\<close> is 1.
\<close>

theorem evaluate_misses_node:
  "makima_ctor [0, 1, 2, 3, 4] [0, 0, 1, 2, 4] =
     Inr \<lparr>x_vec = [0, 1, 2, 3, 4], y_vec = [0, 0, 1, 2, 4],
          s_vec = [Some 0, Some 0, Some 1, Some 0, Some 0]\<rparr> \<and>
   evaluate \<lparr>x_vec = [0, 1, 2, 3, 4], y_vec = [0, 0, 1, 2, 4],
          s_vec = [Some 0, Some 0, Some 1, Some 0, Some 0]\<rparr> ([0, 1, 2, 3, 4] ! 2) = Inr (Some 2) \<and>
   [0, 0, 1, 2, 4] ! 2 = (1 :: real)"
proof (intro conjI)
  show "makima_ctor [0, 1, 2, 3, 4] [0, 0, 1, 2, 4] =
     Inr \<lparr>x_vec = [0, 1, 2, 3, 4], y_vec = [0, 0, 1, 2, 4],
          s_vec = [Some 0, Some 0, Some 1, Some 0, Some 0]\<rparr>"
    by code_simp
  show "evaluate \<lparr>x_vec = [0, 1, 2, 3, 4], y_vec = [0, 0, 1, 2, 4],
          s_vec = [Some 0, Some 0, Some 1, Some 0, Some 0]\<rparr> ([0, 1, 2, 3, 4] ! 2) = Inr (Some 2)"
    by code_simp
  show "[0, 0, 1, 2, 4] ! 2 = (1 :: real)"
    by simp
qed

text \<open>
  Claim C3, on the same samples at the interior node \<open>x[2] = 2\<close>: the cubic of the segment
  from 1 to 2 is 1 at \<open>t = 1\<close>, the cubic of the segment from 2 to 3 is 2 at \<open>t = 0\<close>; the
  call returns a value just below 1 at \<open>2 - 1/1024\<close> and returns 2 at 2.
\<close>

theorem evaluate_jumps_at_node:
  "makima_ctor [0, 1, 2, 3, 4] [0, 0, 1, 2, 4] =
     Inr \<lparr>x_vec = [0, 1, 2, 3, 4], y_vec = [0, 0, 1, 2, 4],
          s_vec = [Some 0, Some 0, Some 1, Some 0, Some 0]\<rparr> \<and>
   hermite ([0, 0, 1, 2, 4] ! 1) ([0, 0, 1, 2, 4] ! 2) 0 1 ([0, 1, 2, 3, 4] ! 2 - [0, 1, 2, 3, 4] ! 1) 1 = 1 \<and>
   hermite ([0, 0, 1, 2, 4] ! 2) ([0, 0, 1, 2, 4] ! 3) 1 0 ([0, 1, 2, 3, 4] ! 3 - [0, 1, 2, 3, 4] ! 2) 0 = 2 \<and>
   evaluate \<lparr>x_vec = [0, 1, 2, 3, 4], y_vec = [0, 0, 1, 2, 4],
          s_vec = [Some 0, Some 0, Some 1, Some 0, Some 0]\<rparr> (2 - 1 / 1024) =
     Inr (Some (1072692225 / 1073741824)) \<and>
   evaluate \<lparr>x_vec = [0, 1, 2, 3, 4], y_vec = [0, 0, 1, 2, 4],
          s_vec = [Some 0, Some 0, Some 1, Some 0, Some 0]\<rparr> 2 = Inr (Some 2)"
proof (intro conjI)
  show "makima_ctor [0, 1, 2, 3, 4] [0, 0, 1, 2, 4] =
     Inr \<lparr>x_vec = [0, 1, 2, 3, 4], y_vec = [0, 0, 1, 2, 4],
          s_vec = [Some 0, Some 0, Some 1, Some 0, Some 0]\<rparr>"
    by code_simp
  show "hermite ([0, 0, 1, 2, 4] ! 1) ([0, 0, 1, 2, 4] ! 2) 0 1 ([0, 1, 2, 3, 4] ! 2 - [0, 1, 2, 3, 4] ! 1) 1 = 1"
    by (simp add: hermite_def)
  show "hermite ([0, 0, 1, 2, 4] ! 2) ([0, 0, 1, 2, 4] ! 3) 1 0 ([0, 1, 2, 3, 4] ! 3 - [0, 1, 2, 3, 4] ! 2) 0 = 2"
    by (simp add: hermite_def)
  show "evaluate \<lparr>x_vec = [0, 1, 2, 3, 4], y_vec = [0, 0, 1, 2, 4],
          s_vec = [Some 0, Some 0, Some 1, Some 0, Some 0]\<rparr> (2 - 1 / 1024) =
     Inr (Some (1072692225 / 1073741824))"
    by code_simp
  show "evaluate \<lparr>x_vec = [0, 1, 2, 3, 4], y_vec = [0, 0, 1, 2, 4],
          s_vec = [Some 0, Some 0, Some 1, Some 0, Some 0]\<rparr> 2 = Inr (Some 2)"
    by code_simp
qed

section \<open>Properties in the arithmetic of the element type\<close>

subsection \<open>The slope loop in any arithmetic\<close>

lemma length_slopes_loop_in: "length (slopes_loop_in A x y i s) = length s"
proof (induction A x y i s rule: slopes_loop_in.induct)
  case (1 A x y i s)
  show ?case
  proof (cases "i < size_sub (length s) 2")
    case True
    have "slopes_loop_in A x y i s = slopes_loop_in A x y (i + 1) (s[i := slope_at_in A x y i])"
      using True by (subst slopes_loop_in.simps) simp
    with "1.IH"[OF True] show ?thesis by simp
  next
    case False
    then show ?thesis by (subst slopes_loop_in.simps) simp
  qed
qed

lemma nth_slopes_loop_in:
  "j < length s \<Longrightarrow>
   slopes_loop_in A x y i s ! j =
     (if i \<le> j \<and> j < size_sub (length s) 2 then slope_at_in A x y j else s ! j)"
proof (induction A x y i s rule: slopes_loop_in.induct)
  case (1 A x y i s)
  show ?case
  proof (cases "i < size_sub (length s) 2")
    case True
    have "slopes_loop_in A x y i s ! j = slopes_loop_in A x y (i + 1) (s[i := slope_at_in A x y i]) ! j"
      using True by (subst slopes_loop_in.simps) simp
    also have "\<dots> = (if i + 1 \<le> j \<and> j < size_sub (length s) 2 then slope_at_in A x y j
                      else s[i := slope_at_in A x y i] ! j)"
      using "1.IH"[OF True] "1.prems" by simp
    also have "\<dots> = (if i \<le> j \<and> j < size_sub (length s) 2 then slope_at_in A x y j else s ! j)"
      using True "1.prems" by (cases "i = j") auto
    finally show ?thesis .
  next
    case False
    then show ?thesis by (subst slopes_loop_in.simps) auto
  qed
qed

lemma makima_ctor_in_Inr:
  "makima_ctor_in A x y = Inr m \<longleftrightarrow>
     length x = length y \<and> 2 \<le> length x \<and> check_increasing_in A (x ! 0) (drop 1 x) \<and>
     m = \<lparr>x_in = x, y_in = y,
          s_in = slopes_loop_in A x y 2 (replicate (length x) (r_lit A 0))\<rparr>"
  by (auto simp: makima_ctor_in_def)

lemma makima_ctor_in_slopes:
  assumes "makima_ctor_in A x y = Inr m" and "j < length x"
  shows "s_in m ! j =
    (if 2 \<le> j \<and> j < length x - 2 then slope_at_in A x y j else r_lit A 0)"
proof -
  from assms(1) have n: "2 \<le> length x"
    and m: "m = \<lparr>x_in = x, y_in = y,
                 s_in = slopes_loop_in A x y 2 (replicate (length x) (r_lit A 0))\<rparr>"
    by (simp_all add: makima_ctor_in_Inr)
  have "s_in m ! j = slopes_loop_in A x y 2 (replicate (length x) (r_lit A 0)) ! j"
    by (simp add: m)
  also have "\<dots> = (if 2 \<le> j \<and> j < size_sub (length x) 2 then slope_at_in A x y j
                    else replicate (length x) (r_lit A 0) ! j)"
    using assms(2) nth_slopes_loop_in[of j "replicate (length x) (r_lit A 0)" A x y 2] by simp
  also have "\<dots> = (if 2 \<le> j \<and> j < length x - 2 then slope_at_in A x y j else r_lit A 0)"
    using assms(2) n by (simp add: size_sub_exact)
  finally show ?thesis .
qed

lemma slope_at_in_secants:
  assumes "mim2 = r_div A (r_sub A (y ! (i - 1)) (y ! (i - 2))) (r_sub A (x ! (i - 1)) (x ! (i - 2)))"
    and "mim1 = r_div A (r_sub A (y ! i) (y ! (i - 1))) (r_sub A (x ! i) (x ! (i - 1)))"
    and "mi = r_div A (r_sub A (y ! (i + 1)) (y ! i)) (r_sub A (x ! (i + 1)) (x ! i))"
    and "mip1 = r_div A (r_sub A (y ! (i + 2)) (y ! (i + 1))) (r_sub A (x ! (i + 2)) (x ! (i + 1)))"
  shows "slope_at_in A x y i =
    r_div A (r_add A (r_mul A (r_abs A (r_sub A mip1 mi)) mim1)
                     (r_mul A (r_abs A (r_sub A mim1 mim2)) mi))
            (r_add A (r_abs A (r_sub A mip1 mi)) (r_abs A (r_sub A mim1 mim2)))"
  unfolding assms by (simp add: slope_at_in_def Let_def)

text \<open>
  Claim C7. Whatever the arithmetic of the element type, at every index \<open>i\<close> with
  \<open>2 \<le> i < n - 2\<close> the constructor stores the quotient of the weighted sum of the two
  central secant slopes by the sum of the weights, all of it computed in that arithmetic
  from the four secant slopes, themselves quotients in that arithmetic. The equation
  holds with or without a zero sum of weights: the stored value is then whatever the
  arithmetic gives for the quotient.
\<close>

theorem interior_slope_formula:
  assumes "makima_ctor_in A x y = Inr m" and "2 \<le> i" and "i < length x - 2"
    and "mim2 = r_div A (r_sub A (y ! (i - 1)) (y ! (i - 2))) (r_sub A (x ! (i - 1)) (x ! (i - 2)))"
    and "mim1 = r_div A (r_sub A (y ! i) (y ! (i - 1))) (r_sub A (x ! i) (x ! (i - 1)))"
    and "mi = r_div A (r_sub A (y ! (i + 1)) (y ! i)) (r_sub A (x ! (i + 1)) (x ! i))"
    and "mip1 = r_div A (r_sub A (y ! (i + 2)) (y ! (i + 1))) (r_sub A (x ! (i + 2)) (x ! (i + 1)))"
  shows "s_in m ! i =
    r_div A (r_add A (r_mul A (r_abs A (r_sub A mip1 mi)) mim1)
                     (r_mul A (r_abs A (r_sub A mim1 mim2)) mi))
            (r_add A (r_abs A (r_sub A mip1 mi)) (r_abs A (r_sub A mim1 mim2)))"
proof -
  have "i < length x" using assms(3) by simp
  then have "s_in m ! i = slope_at_in A x y i"
    using makima_ctor_in_slopes[OF assms(1), of i] assms(2,3) by simp
  also have "\<dots> =
    r_div A (r_add A (r_mul A (r_abs A (r_sub A mip1 mi)) mim1)
                     (r_mul A (r_abs A (r_sub A mim1 mim2)) mi))
            (r_add A (r_abs A (r_sub A mip1 mi)) (r_abs A (r_sub A mim1 mim2)))"
    unfolding assms(4-7) by (simp add: slope_at_in_def Let_def)
  finally show ?thesis .
qed

subsection \<open>Evaluating binary64\<close>

lemma bitlen_numeral: "bitlen (numeral k) = 1 + bitlen (numeral k div 2)"
  by (subst bitlen.simps) simp

lemma bitlen_0: "bitlen 0 = 0"
  by (subst bitlen.simps) simp

lemma bitlen_1: "bitlen 1 = 1"
  by (subst bitlen.simps, simp)+

lemmas binary64_eval =
  binary64_def b64_sub_def b64_le_def b64_eq_def b64_inf_def
  round64_def ilog2_def pow2_def nearest_even_def bitlen_numeral bitlen_0 bitlen_1 Let_def

lemma slopes_loop_in_five:
  "slopes_loop_in A x y 2 [a, b, c, d, e] = [a, b, slope_at_in A x y 2, d, e]"
  by (simp add: slopes_loop_in.simps[of A x y 2] slopes_loop_in.simps[of A x y 3] size_sub_def)

lemma makima_ctor_in_five:
  assumes "\<not> r_le A x1 x0" and "\<not> r_le A x2 x1" and "\<not> r_le A x3 x2" and "\<not> r_le A x4 x3"
  shows "makima_ctor_in A [x0, x1, x2, x3, x4] [y0, y1, y2, y3, y4] =
    Inr \<lparr>x_in = [x0, x1, x2, x3, x4], y_in = [y0, y1, y2, y3, y4],
         s_in = [r_lit A 0, r_lit A 0,
                 slope_at_in A [x0, x1, x2, x3, x4] [y0, y1, y2, y3, y4] 2,
                 r_lit A 0, r_lit A 0]\<rparr>"
  using assms by (simp add: makima_ctor_in_def slopes_loop_in_five)

theorem interior_slope_formula_witness:
  "makima_ctor_in binary64 [Fin 0, Fin 1, Fin 2, Fin 3, Fin 4] [Fin 0, Fin 0, Fin 1, Fin 3, Fin 8] =
     Inr \<lparr>x_in = [Fin 0, Fin 1, Fin 2, Fin 3, Fin 4], y_in = [Fin 0, Fin 0, Fin 1, Fin 3, Fin 8],
          s_in = [Fin 0, Fin 0, Fin (5 / 4), Fin 0, Fin 0]\<rparr> \<and>
   makima_ctor_in binary64 [Fin 0, Fin 1, Fin 2, Fin 3, Fin 4]
       [Fin (1 / 2 ^ 60), Fin 1, Fin 2, Fin 3, Fin 4] =
     Inr \<lparr>x_in = [Fin 0, Fin 1, Fin 2, Fin 3, Fin 4],
          y_in = [Fin (1 / 2 ^ 60), Fin 1, Fin 2, Fin 3, Fin 4],
          s_in = [Fin 0, Fin 0, NaN, Fin 0, Fin 0]\<rparr>"
proof -
  let ?x = "[Fin 0, Fin 1, Fin 2, Fin 3, Fin 4]"
  let ?y = "[Fin 0, Fin 0, Fin 1, Fin 3, Fin 8]"
  let ?z = "[Fin (1 / 2 ^ 60), Fin 1, Fin 2, Fin 3, Fin 4]"
  have inc: "\<not> r_le binary64 (Fin 1) (Fin 0)" "\<not> r_le binary64 (Fin 2) (Fin 1)"
    "\<not> r_le binary64 (Fin 3) (Fin 2)" "\<not> r_le binary64 (Fin 4) (Fin 3)"
    by (simp_all add: binary64_def b64_le_def b64_eq_def)
  have zero: "r_lit binary64 0 = Fin 0"
    by (simp add: binary64_def)
  note cy = makima_ctor_in_five[OF inc, of "Fin 0" "Fin 0" "Fin 1" "Fin 3" "Fin 8"]
  note cz = makima_ctor_in_five[OF inc, of "Fin (1 / 2 ^ 60)" "Fin 1" "Fin 2" "Fin 3" "Fin 4"]
  have "slope_at_in binary64 ?x ?y 2 =
    r_div binary64 (r_add binary64 (r_mul binary64 (r_abs binary64 (r_sub binary64 (Fin 5) (Fin 2))) (Fin 1))
                     (r_mul binary64 (r_abs binary64 (r_sub binary64 (Fin 1) (Fin 0))) (Fin 2)))
            (r_add binary64 (r_abs binary64 (r_sub binary64 (Fin 5) (Fin 2)))
                     (r_abs binary64 (r_sub binary64 (Fin 1) (Fin 0))))"
    using interior_slope_formula[OF cy, of 2 "Fin 0" "Fin 1" "Fin 2" "Fin 5"]
    by (simp add: binary64_eval)
  also have "\<dots> = Fin (5 / 4)"
    by (simp add: binary64_eval)
  finally have sy: "slope_at_in binary64 ?x ?y 2 = Fin (5 / 4)" .
  have "slope_at_in binary64 ?x ?z 2 =
    r_div binary64 (r_add binary64 (r_mul binary64 (r_abs binary64 (r_sub binary64 (Fin 1) (Fin 1))) (Fin 1))
                     (r_mul binary64 (r_abs binary64 (r_sub binary64 (Fin 1) (Fin 1))) (Fin 1)))
            (r_add binary64 (r_abs binary64 (r_sub binary64 (Fin 1) (Fin 1)))
                     (r_abs binary64 (r_sub binary64 (Fin 1) (Fin 1))))"
    using interior_slope_formula[OF cz, of 2 "Fin 1" "Fin 1" "Fin 1" "Fin 1"]
    by (simp add: binary64_eval)
  also have "\<dots> = NaN"
    by (simp add: binary64_eval)
  finally have sz: "slope_at_in binary64 ?x ?z 2 = NaN" .
  show ?thesis
    unfolding cy cz sy sz zero by simp
qed

subsection \<open>The first definitions are the code in exact arithmetic\<close>

lemma exact_arith [simp]:
  "r_lit exact n = Some (of_int n)"
  "r_add exact (Some a) (Some b) = Some (a + b)"
  "r_sub exact (Some a) (Some b) = Some (a - b)"
  "r_mul exact (Some a) (Some b) = Some (a * b)"
  "r_div exact (Some a) (Some b) = fdiv a b"
  "r_abs exact (Some a) = Some \<bar>a\<bar>"
  "r_lt exact (Some a) (Some b) \<longleftrightarrow> a < b"
  "r_le exact (Some a) (Some b) \<longleftrightarrow> a \<le> b"
  "r_eq exact (Some a) (Some b) \<longleftrightarrow> a = b"
  by (simp_all add: exact_def)

lemma exact_arith_None [simp]:
  "r_add exact None v = None" "r_add exact v None = None"
  "r_sub exact None v = None" "r_sub exact v None = None"
  "r_mul exact None v = None" "r_mul exact v None = None"
  "r_div exact None v = None" "r_div exact v None = None"
  "r_abs exact None = None"
  by (simp_all add: exact_def split: option.splits)

lemma check_increasing_exact:
  "check_increasing_in exact (Some x0) (map Some xs) = check_increasing x0 xs"
  by (induction xs arbitrary: x0) simp_all

lemma slope_at_exact:
  assumes "2 \<le> i" and "i + 2 < length x" and "length y = length x"
  shows "slope_at_in exact (map Some x) (map Some y) i = slope_at x y i"
proof -
  have n: "i - 2 < length x" "i - 1 < length x" "i < length x" "i + 1 < length x" "i + 2 < length x"
    using assms(2) by simp_all
  show ?thesis
    unfolding slope_at_in_def slope_at_def Let_def
    using n assms(3)
    by (simp add: fdiv_def split: option.splits)
qed

lemma slopes_loop_exact:
  "2 \<le> i \<Longrightarrow> length s = length x \<Longrightarrow> length y = length x \<Longrightarrow> 2 \<le> length x \<Longrightarrow>
   slopes_loop_in exact (map Some x) (map Some y) i s = slopes_loop x y i s"
proof (induction x y i s rule: slopes_loop.induct)
  case (1 x y i s)
  show ?case
  proof (cases "i < size_sub (length s) 2")
    case True
    then have i2: "i + 2 < length x"
      using "1.prems" by (simp add: size_sub_exact)
    have "slopes_loop_in exact (map Some x) (map Some y) i s =
        slopes_loop_in exact (map Some x) (map Some y) (i + 1)
          (s[i := slope_at_in exact (map Some x) (map Some y) i])"
      using True by (subst slopes_loop_in.simps) simp
    also have "\<dots> = slopes_loop_in exact (map Some x) (map Some y) (i + 1) (s[i := slope_at x y i])"
      by (simp add: slope_at_exact[OF "1.prems"(1) i2 "1.prems"(3)])
    also have "\<dots> = slopes_loop x y (i + 1) (s[i := slope_at x y i])"
      using "1.IH"[OF True] "1.prems" by simp
    also have "\<dots> = slopes_loop x y i s"
      using True by (subst (2) slopes_loop.simps) simp
    finally show ?thesis .
  next
    case False
    have "slopes_loop_in exact (map Some x) (map Some y) i s = s"
      using False by (subst slopes_loop_in.simps) simp
    moreover have "slopes_loop x y i s = s"
      using False by (subst slopes_loop.simps) simp
    ultimately show ?thesis by simp
  qed
qed

lemma makima_ctor_exact:
  "makima_ctor_in exact (map Some x) (map Some y) =
     (case makima_ctor x y of Inl e \<Rightarrow> Inl e
      | Inr m \<Rightarrow> Inr \<lparr>x_in = map Some (x_vec m), y_in = map Some (y_vec m), s_in = s_vec m\<rparr>)"
proof (cases "length x = length y \<and> 2 \<le> length x")
  case True
  then have ne: "x \<noteq> []" by auto
  then have hd: "map Some x ! 0 = Some (x ! 0)" by simp
  have chk: "check_increasing_in exact (map Some x ! 0) (drop 1 (map Some x)) =
      check_increasing (x ! 0) (drop 1 x)"
    unfolding hd drop_map by (rule check_increasing_exact)
  have sl: "slopes_loop_in exact (map Some x) (map Some y) 2 (replicate (length x) (Some 0)) =
      slopes_loop x y 2 (replicate (length x) (Some 0))"
    using True by (intro slopes_loop_exact) simp_all
  show ?thesis
    using True chk sl by (simp add: makima_ctor_in_def makima_ctor_def)
next
  case False
  then show ?thesis by (auto simp: makima_ctor_in_def makima_ctor_def)
qed

lemma makima_ctor_exact_Inr:
  assumes "makima_ctor_in exact (map Some x) (map Some y) = Inr m"
  obtains m' where "makima_ctor x y = Inr m'"
    and "x_in m = map Some x" and "y_in m = map Some y" and "s_in m = s_vec m'"
proof (cases "makima_ctor x y")
  case (Inl e)
  with assms show ?thesis by (simp add: makima_ctor_exact)
next
  case (Inr m')
  with assms have "m = \<lparr>x_in = map Some (x_vec m'), y_in = map Some (y_vec m'), s_in = s_vec m'\<rparr>"
    by (simp add: makima_ctor_exact)
  then show ?thesis
    using that[OF Inr] makima_ctor_fields(1,2)[OF Inr] by simp
qed




subsection \<open>The slope between the secant slopes\<close>

text \<open>
  Claim C8, as amended. With the element type read in exact arithmetic, in the object the
  constructor returns every slope at an index \<open>i\<close> with \<open>2 \<le> i < n - 2\<close> whose weights do not
  sum to zero is a number between the two central secant slopes, both ends included. The
  call operator and the output operator are \<^verbatim>\<open>const\<close> and the class has no other member, so
  the objects the constructor returns are all the states there are.
\<close>

theorem interior_slope_between:
  assumes "makima_ctor_in exact (map Some x) (map Some y) = Inr m"
    and "2 \<le> i" and "i < length x - 2"
    and "mim2 = (y ! (i - 1) - y ! (i - 2)) / (x ! (i - 1) - x ! (i - 2))"
    and "mim1 = (y ! i - y ! (i - 1)) / (x ! i - x ! (i - 1))"
    and "mi = (y ! (i + 1) - y ! i) / (x ! (i + 1) - x ! i)"
    and "mip1 = (y ! (i + 2) - y ! (i + 1)) / (x ! (i + 2) - x ! (i + 1))"
    and "\<bar>mip1 - mi\<bar> + \<bar>mim1 - mim2\<bar> \<noteq> 0"
  shows "\<exists>s. s_in m ! i = Some s \<and> min mim1 mi \<le> s \<and> s \<le> max mim1 mi"
proof -
  obtain m' where c: "makima_ctor x y = Inr m'" and s: "s_in m = s_vec m'"
    using assms(1) by (rule makima_ctor_exact_Inr)
  have xy: "x_vec m' = x" "y_vec m' = y"
    using c by (rule makima_ctor_fields)+
  have "\<exists>s. s_vec m' ! i = Some s \<and> min mim1 mi \<le> s \<and> s \<le> max mim1 mi"
    using assms(2-8) by (intro slope_between_exact[OF c]) (simp_all add: xy)
  then show ?thesis by (simp add: s)
qed

theorem interior_slope_between_witness:
  "makima_ctor_in exact (map Some [0, 1, 2, 3, 4]) (map Some [0, 0, 1, 3, 8]) =
     Inr \<lparr>x_in = [Some 0, Some 1, Some 2, Some 3, Some 4],
          y_in = [Some 0, Some 0, Some 1, Some 3, Some 8],
          s_in = [Some 0, Some 0, Some (5 / 4), Some 0, Some 0]\<rparr> \<and>
   \<bar>5 - 2\<bar> + \<bar>1 - 0\<bar> \<noteq> (0::real) \<and>
   (\<exists>s. [Some 0, Some 0, Some (5 / 4), Some 0, Some 0] ! 2 = Some s \<and> min 1 2 \<le> s \<and> s \<le> max 1 (2::real))"
proof -
  have c: "makima_ctor_in exact (map Some [0, 1, 2, 3, 4]) (map Some [0, 0, 1, 3, 8]) =
     Inr \<lparr>x_in = [Some 0, Some 1, Some 2, Some 3, Some 4],
          y_in = [Some 0, Some 0, Some 1, Some 3, Some 8],
          s_in = [Some 0, Some 0, Some (5 / 4), Some 0, Some 0]\<rparr>"
    by (simp add: makima_ctor_in_five slope_at_in_def fdiv_def)
  have "\<exists>s. s_in \<lparr>x_in = [Some 0, Some 1, Some 2, Some 3, Some 4],
          y_in = [Some 0, Some 0, Some 1, Some 3, Some 8],
          s_in = [Some 0, Some 0, Some (5 / 4), Some 0, Some 0]\<rparr> ! 2 = Some s \<and>
        min 1 2 \<le> s \<and> s \<le> max 1 (2::real)"
    by (rule interior_slope_between[OF c, of 2 0 _ _ 5]) simp_all
  with c show ?thesis by simp
qed

text \<open>
  Claim C8 as stated fails in binary64. At the abscissas \<open>0, 3, 6, 9, 12\<close> with ordinates
  \<open>0, -6, -5, -4, -4\<close> the two central secant slopes are both the double nearest to \<open>1/3\<close>,
  \<open>6004799503160661 / 2^54\<close>; the sum of the weights is not zero; and the slope stored at
  index 2 is \<open>1501199875790165 / 2^52\<close>, one unit in the last place below them.
\<close>

theorem slope_outside_secants:
  "makima_ctor_in binary64 [Fin 0, Fin 3, Fin 6, Fin 9, Fin 12]
       [Fin 0, Fin (- 6), Fin (- 5), Fin (- 4), Fin (- 4)] =
     Inr \<lparr>x_in = [Fin 0, Fin 3, Fin 6, Fin 9, Fin 12],
          y_in = [Fin 0, Fin (- 6), Fin (- 5), Fin (- 4), Fin (- 4)],
          s_in = [Fin 0, Fin 0, Fin (1501199875790165 / 2 ^ 52), Fin 0, Fin 0]\<rparr> \<and>
   r_div binary64 (r_sub binary64 (Fin (- 5)) (Fin (- 6))) (r_sub binary64 (Fin 6) (Fin 3)) =
     Fin (6004799503160661 / 2 ^ 54) \<and>
   r_div binary64 (r_sub binary64 (Fin (- 4)) (Fin (- 5))) (r_sub binary64 (Fin 9) (Fin 6)) =
     Fin (6004799503160661 / 2 ^ 54) \<and>
   r_add binary64 (r_abs binary64 (r_sub binary64 (Fin 0) (Fin (6004799503160661 / 2 ^ 54))))
     (r_abs binary64 (r_sub binary64 (Fin (6004799503160661 / 2 ^ 54)) (Fin (- 2)))) =
     Fin (3002399751580331 / 2 ^ 50) \<and>
   \<not> r_eq binary64 (Fin (3002399751580331 / 2 ^ 50)) (Fin 0) \<and>
   r_lt binary64 (Fin (1501199875790165 / 2 ^ 52)) (Fin (6004799503160661 / 2 ^ 54))"
proof -
  let ?x = "[Fin 0, Fin 3, Fin 6, Fin 9, Fin 12]"
  let ?y = "[Fin 0, Fin (- 6), Fin (- 5), Fin (- 4), Fin (- 4)]"
  have inc: "\<not> r_le binary64 (Fin 3) (Fin 0)" "\<not> r_le binary64 (Fin 6) (Fin 3)"
    "\<not> r_le binary64 (Fin 9) (Fin 6)" "\<not> r_le binary64 (Fin 12) (Fin 9)"
    by (simp_all add: binary64_def b64_le_def b64_eq_def)
  have mim2: "Fin (- 2) = r_div binary64 (r_sub binary64 (?y ! (2 - 1)) (?y ! (2 - 2)))
      (r_sub binary64 (?x ! (2 - 1)) (?x ! (2 - 2)))"
    by (simp add: binary64_eval)
  have mim1: "Fin (6004799503160661 / 2 ^ 54) = r_div binary64 (r_sub binary64 (?y ! 2) (?y ! (2 - 1)))
      (r_sub binary64 (?x ! 2) (?x ! (2 - 1)))"
    by (simp add: binary64_eval)
  have mi: "Fin (6004799503160661 / 2 ^ 54) = r_div binary64 (r_sub binary64 (?y ! (2 + 1)) (?y ! 2))
      (r_sub binary64 (?x ! (2 + 1)) (?x ! 2))"
    by (simp add: binary64_eval)
  have mip1: "Fin 0 = r_div binary64 (r_sub binary64 (?y ! (2 + 2)) (?y ! (2 + 1)))
      (r_sub binary64 (?x ! (2 + 2)) (?x ! (2 + 1)))"
    by (simp add: binary64_eval)
  have w1: "r_abs binary64 (r_sub binary64 (Fin 0) (Fin (6004799503160661 / 2 ^ 54))) =
      Fin (6004799503160661 / 2 ^ 54)"
    by (simp add: binary64_eval)
  have w2: "r_abs binary64 (r_sub binary64 (Fin (6004799503160661 / 2 ^ 54)) (Fin (- 2))) =
      Fin (5254199565265579 / 2 ^ 51)"
    by (simp add: binary64_eval)
  have p1: "r_mul binary64 (Fin (6004799503160661 / 2 ^ 54)) (Fin (6004799503160661 / 2 ^ 54)) =
      Fin (2001599834386887 / 2 ^ 54)"
    by (simp add: binary64_eval)
  have p2: "r_mul binary64 (Fin (5254199565265579 / 2 ^ 51)) (Fin (6004799503160661 / 2 ^ 54)) =
      Fin (7005599420354105 / 2 ^ 53)"
    by (simp add: binary64_eval)
  have num: "r_add binary64 (Fin (2001599834386887 / 2 ^ 54)) (Fin (7005599420354105 / 2 ^ 53)) =
      Fin (2001599834386887 / 2 ^ 51)"
    by (simp add: binary64_eval)
  have den: "r_add binary64 (Fin (6004799503160661 / 2 ^ 54)) (Fin (5254199565265579 / 2 ^ 51)) =
      Fin (3002399751580331 / 2 ^ 50)"
    by (simp add: binary64_eval)
  have quo: "r_div binary64 (Fin (2001599834386887 / 2 ^ 51)) (Fin (3002399751580331 / 2 ^ 50)) =
      Fin (1501199875790165 / 2 ^ 52)"
    by (simp add: binary64_eval)
  have s2: "slope_at_in binary64 ?x ?y 2 = Fin (1501199875790165 / 2 ^ 52)"
    unfolding slope_at_in_secants[OF mim2 mim1 mi mip1] w1 w2 p1 p2 num den quo ..
  have zero: "r_lit binary64 0 = Fin 0"
    by (simp add: binary64_def)
  have ctor: "makima_ctor_in binary64 ?x ?y =
     Inr \<lparr>x_in = ?x, y_in = ?y,
          s_in = [Fin 0, Fin 0, Fin (1501199875790165 / 2 ^ 52), Fin 0, Fin 0]\<rparr>"
    unfolding makima_ctor_in_five[OF inc] s2 zero ..
  have m1: "r_div binary64 (r_sub binary64 (Fin (- 5)) (Fin (- 6))) (r_sub binary64 (Fin 6) (Fin 3)) =
     Fin (6004799503160661 / 2 ^ 54)"
    using mim1 by simp
  have m2: "r_div binary64 (r_sub binary64 (Fin (- 4)) (Fin (- 5))) (r_sub binary64 (Fin 9) (Fin 6)) =
     Fin (6004799503160661 / 2 ^ 54)"
    using mi by simp
  have d: "r_add binary64 (r_abs binary64 (r_sub binary64 (Fin 0) (Fin (6004799503160661 / 2 ^ 54))))
     (r_abs binary64 (r_sub binary64 (Fin (6004799503160661 / 2 ^ 54)) (Fin (- 2)))) =
     Fin (3002399751580331 / 2 ^ 50)"
    unfolding w1 w2 den ..
  have nz: "\<not> r_eq binary64 (Fin (3002399751580331 / 2 ^ 50)) (Fin 0)"
    by (simp add: binary64_def b64_eq_def)
  have lt: "r_lt binary64 (Fin (1501199875790165 / 2 ^ 52)) (Fin (6004799503160661 / 2 ^ 54))"
    by (simp add: binary64_def)
  show ?thesis
    using ctor m1 m2 d nz lt by (intro conjI)
qed

subsection \<open>The local parameter\<close>






end
